theory Spec2Isabelle
  imports Main "HOL-Library.Word"
begin

unbundle bit_operations_syntax

section \<open>The protobuf reader (\<^verbatim>\<open>ProtoBufReader\<close>)\<close>

text \<open>
  A \<^verbatim>\<open>Buffer\<close> is a sequence of bytes. A JavaScript \<^verbatim>\<open>bigint\<close> is an unbounded
  integer, modelled as \<open>int\<close>; the cursor \<^verbatim>\<open>c\<close> and the saved cursor \<^verbatim>\<open>s\<close> are
  JavaScript numbers that only ever hold integers here, modelled as \<open>int\<close> as well
  (\<^verbatim>\<open>rewind(b)\<close> can make the cursor negative, \<^verbatim>\<open>eat\<close> can move it past the end).
\<close>

type_synonym byte = "8 word"
type_synonym buffer = "byte list"
type_synonym bigint = int

record ProtoBufReader =
  buf :: buffer
  c :: int
  s :: int

text \<open>\<^verbatim>\<open>new ProtoBufReader(buf)\<close>: the cursor starts at 0, the field \<^verbatim>\<open>s\<close> is initialised to 0.\<close>

definition newReader :: "buffer \<Rightarrow> ProtoBufReader" where
  "newReader b = \<lparr>buf = b, c = 0, s = 0\<rparr>"

text \<open>
  \<^verbatim>\<open>buf[i]\<close>: the byte at index \<open>i\<close>, \<^verbatim>\<open>undefined\<close> (here \<open>None\<close>) when \<open>i\<close> is
  negative or not below the length.
\<close>

definition at_index :: "buffer \<Rightarrow> int \<Rightarrow> byte option" where
  "at_index b i = (if 0 \<le> i \<and> i < int (length b) then Some (b ! nat i) else None)"

text \<open>
  \<^verbatim>\<open>buf.slice(start, end)\<close>: a negative index counts from the end, every index is
  clamped to \<open>[0, length]\<close>, and the result is empty when the clamped end is not
  beyond the clamped start.
\<close>

definition clamp_index :: "nat \<Rightarrow> int \<Rightarrow> nat" where
  "clamp_index len i = (if i < 0 then nat (max (int len + i) 0) else min (nat i) len)"

definition slice :: "buffer \<Rightarrow> int \<Rightarrow> int \<Rightarrow> buffer" where
  "slice b start end =
     (let a = clamp_index (length b) start; e = clamp_index (length b) end
      in take (e - a) (drop a b))"

text \<open>
  \<^verbatim>\<open>buf.readUInt32LE(offset)\<close> and \<^verbatim>\<open>buf.readBigUInt64LE(offset)\<close>: the unsigned
  little-endian integer held in the \<open>w\<close> bytes from \<open>offset\<close>; a \<^verbatim>\<open>RangeError\<close> is
  thrown unless \<open>0 \<le> offset \<le> length - w\<close>.
\<close>

datatype reader_error = RangeError

fun le_value :: "buffer \<Rightarrow> int" where
  "le_value [] = 0"
| "le_value (b # bs) = uint b + 256 * le_value bs"

definition readUIntLE :: "nat \<Rightarrow> buffer \<Rightarrow> int \<Rightarrow> reader_error + int" where
  "readUIntLE w b offset =
     (if 0 \<le> offset \<and> offset + int w \<le> int (length b)
      then Inr (le_value (take w (drop (nat offset) b)))
      else Inl RangeError)"


text \<open>
  \<^verbatim>\<open>parseVariant(buf)\<close> is a left fold over the bytes with their index:
  \<^verbatim>\<open>buf.reduce((r, b, i) => r | ((BigInt(b) & 0x7fn) << (BigInt(i) * 7n)), 0n)\<close>.
  \<open>parseVariant_from i bs r\<close> is the fold from index \<open>i\<close> on, with accumulator \<open>r\<close>.
\<close>

fun parseVariant_from :: "nat \<Rightarrow> buffer \<Rightarrow> bigint \<Rightarrow> bigint" where
  "parseVariant_from i [] r = r"
| "parseVariant_from i (b # bs) r =
     parseVariant_from (Suc i) bs (r OR push_bit (i * 7) (uint b AND 0x7f))"

definition parseVariant :: "buffer \<Rightarrow> bigint" where
  "parseVariant b = parseVariant_from 0 b 0"

definition isEnded :: "ProtoBufReader \<Rightarrow> bool" where
  "isEnded r = (c r = int (length (buf r)))"

definition remainingBytes :: "ProtoBufReader \<Rightarrow> int" where
  "remainingBytes r = int (length (buf r)) - c r"

text \<open>
  Every read returns the value read (\<open>None\<close> for \<^verbatim>\<open>null\<close>) and the reader after the
  call. \<^verbatim>\<open>eat(bytes)\<close> is \<^verbatim>\<open>this.buf.slice(this.c, (this.c += bytes))\<close>: the slice
  runs from the old cursor to the new one.
\<close>

definition eat :: "ProtoBufReader \<Rightarrow> int \<Rightarrow> buffer option \<times> ProtoBufReader" where
  "eat r bytes =
     (if isEnded r then (None, r)
      else (Some (slice (buf r) (c r) (c r + bytes)), r\<lparr>c := c r + bytes\<rparr>))"

text \<open>
  \<^verbatim>\<open>eatUInt32\<close> and \<^verbatim>\<open>eatUInt64\<close> read at the cursor first and advance it afterwards,
  so a read that throws leaves the reader as it was.
\<close>

definition eatUInt32 :: "ProtoBufReader \<Rightarrow> reader_error + (int option \<times> ProtoBufReader)" where
  "eatUInt32 r =
     (if isEnded r then Inr (None, r)
      else case readUIntLE 4 (buf r) (c r) of
             Inl e \<Rightarrow> Inl e
           | Inr n \<Rightarrow> Inr (Some n, r\<lparr>c := c r + 4\<rparr>))"

definition eatUInt64 :: "ProtoBufReader \<Rightarrow> reader_error + (bigint option \<times> ProtoBufReader)" where
  "eatUInt64 r =
     (if isEnded r then Inr (None, r)
      else case readUIntLE 8 (buf r) (c r) of
             Inl e \<Rightarrow> Inl e
           | Inr n \<Rightarrow> Inr (Some n, r\<lparr>c := c r + 8\<rparr>))"

text \<open>
  The loop of \<^verbatim>\<open>eatVariant\<close>, \<^verbatim>\<open>while (this.buf[this.c] & 0x80) this.c += 1\<close>, from
  cursor \<open>i\<close>: \<^verbatim>\<open>undefined & 0x80\<close> is 0, so the loop stops at the latest when the
  cursor leaves the buffer.
\<close>

function eatVariant_loop :: "buffer \<Rightarrow> int \<Rightarrow> int" where
  "eatVariant_loop b i =
     (case at_index b i of
        None \<Rightarrow> i
      | Some x \<Rightarrow> if x AND 0x80 \<noteq> 0 then eatVariant_loop b (i + 1) else i)"
  by pat_completeness auto
termination
  by (relation "measure (\<lambda>(b, i). nat (int (length b) - i))")
     (auto simp: at_index_def split: if_splits)

declare eatVariant_loop.simps [simp del]

definition eatVariant :: "ProtoBufReader \<Rightarrow> bigint option \<times> ProtoBufReader" where
  "eatVariant r =
     (if isEnded r then (None, r)
      else let start = c r;
               last = eatVariant_loop (buf r) (c r);
               rawBuf = slice (buf r) start (last + 1)
           in (Some (parseVariant rawBuf), r\<lparr>c := last + 1\<rparr>))"

definition save :: "ProtoBufReader \<Rightarrow> ProtoBufReader" where
  "save r = r\<lparr>s := c r\<rparr>"

definition rewind :: "ProtoBufReader \<Rightarrow> int option \<Rightarrow> ProtoBufReader" where
  "rewind r b = (case b of Some n \<Rightarrow> r\<lparr>c := c r - n\<rparr> | None \<Rightarrow> r\<lparr>c := s r\<rparr>)"

subsection \<open>Varints as the specification describes them\<close>

text \<open>
  A byte sequence encodes a varint when it is not empty, every byte but the last has
  its high bit (the continuation flag) set and the last has it clear. Its value takes
  the low 7 bits of each byte, least-significant group first.
\<close>

fun varint_wf :: "buffer \<Rightarrow> bool" where
  "varint_wf [] = False"
| "varint_wf [b] = (b AND 0x80 = 0)"
| "varint_wf (b # bs) = (b AND 0x80 \<noteq> 0 \<and> varint_wf bs)"

fun varint_value :: "buffer \<Rightarrow> int" where
  "varint_value [] = 0"
| "varint_value (b # bs) = uint (b AND 0x7f) + 128 * varint_value bs"

text \<open>
  Modelled from the spec: the varint encoder of the module \<^verbatim>\<open>protobuf/assembler\<close>, which
  is missing here. The low 7 bits go first; the high bit is set on every byte but the
  last.
\<close>

fun varint_bytes :: "nat \<Rightarrow> buffer" where
  "varint_bytes n =
     (if n < 128 then [of_nat n]
      else of_nat (n mod 128 + 128) # varint_bytes (n div 128))"

declare varint_bytes.simps [simp del]

section \<open>The token codec over the reader\<close>














section \<open>One poll: \<^verbatim>\<open>Masterchat.fetch\<close>\<close>

subsection \<open>The session object and the remote responses\<close>

text \<open>
  The fields of a \<^verbatim>\<open>Masterchat\<close> object that the chat API reads and writes. \<^verbatim>\<open>isLive\<close>
  is \<^verbatim>\<open>undefined\<close> (\<open>None\<close>), \<^verbatim>\<open>true\<close> or \<^verbatim>\<open>false\<close>. A promise and an
  \<^verbatim>\<open>AbortController\<close> are objects with an identity, here a number: \<^verbatim>\<open>listener\<close> holds
  the identity of the \<^verbatim>\<open>ChatListener\<close> promise or \<^verbatim>\<open>null\<close> (\<open>None\<close>), and
  \<^verbatim>\<open>listenerAbortion\<close> the identity of the current controller.
\<close>

record Masterchat =
  videoId :: string
  channelId :: string
  isLive :: "bool option"
  listener :: "nat option"
  listenerAbortion :: nat

text \<open>
  The constructor: \<^verbatim>\<open>mode\<close> \<^verbatim>\<open>"live"\<close> gives \<^verbatim>\<open>isLive = true\<close>, \<^verbatim>\<open>"replay"\<close> gives
  \<^verbatim>\<open>false\<close>, no mode gives \<^verbatim>\<open>undefined\<close>; there is no listener, and the field
  initialiser creates a first \<^verbatim>\<open>AbortController\<close>, whose identity is the argument \<open>ctl\<close>.
\<close>

datatype chat_mode = Live | Replay

definition newMasterchat :: "string \<Rightarrow> string \<Rightarrow> chat_mode option \<Rightarrow> nat \<Rightarrow> Masterchat" where
  "newMasterchat vid cid mode ctl =
     \<lparr>videoId = vid, channelId = cid,
      isLive = (case mode of Some Live \<Rightarrow> Some True | Some Replay \<Rightarrow> Some False | None \<Rightarrow> None),
      listener = None, listenerAbortion = ctl\<rparr>"

text \<open>\<^verbatim>\<open>this.isLive ?? true\<close>.\<close>

definition isLive_or_true :: "bool option \<Rightarrow> bool" where
  "isLive_or_true l = (case l of None \<Rightarrow> True | Some b \<Rightarrow> b)"

text \<open>
  \<^verbatim>\<open>YTChatErrorStatus\<close> is declared in the module \<^verbatim>\<open>yt\<close>; the switch in \<^verbatim>\<open>fetch\<close> names
  five of its members and has a default case, for which \<open>OtherStatus\<close> stands.
\<close>

datatype YTChatErrorStatus =
  PermissionDenied | NotFound | Invalid | Unavailable | Internal | OtherStatus string

text \<open>
  The errors \<^verbatim>\<open>fetch\<close> can throw. \<open>Error m\<close> is \<^verbatim>\<open>new Error(message)\<close>; \<open>PostError n\<close> is
  an error thrown by \<^verbatim>\<open>this.post\<close> or \<^verbatim>\<open>res.json()\<close> whose \<^verbatim>\<open>type\<close> is not \<^verbatim>\<open>"aborted"\<close>
  (a network failure, invalid JSON), with its name.
\<close>

datatype fetch_error =
    AbortError
  | NoPermissionError string
  | UnavailableError string
  | InvalidArgumentError string
  | DisabledChatError string
  | MembersOnlyError string
  | Error string
  | PostError string

text \<open>
  A timed continuation (the result of \<^verbatim>\<open>getTimedContinuation\<close>, from the module
  \<^verbatim>\<open>modules/chat/utils\<close>, is taken as given in the response), and the part of \<^verbatim>\<open>continuationContents\<close> that
  \<^verbatim>\<open>fetch\<close> reads: the timed continuation, if any, and
  \<^verbatim>\<open>liveChatContinuation.actions\<close>, if present.
\<close>

record TimedContinuation =
  token :: string
  timeoutMs :: int

record 'a ContinuationContents =
  timedContinuation :: "TimedContinuation option"
  rawActions :: "'a list option"

text \<open>
  The JSON body of a response, as far as \<^verbatim>\<open>fetch\<close> inspects it: \<^verbatim>\<open>response.error\<close> (status
  and message), \<^verbatim>\<open>response.continuationContents\<close>, and, when the key \<^verbatim>\<open>contents\<close> is
  present, the text \<^verbatim>\<open>runsToString(obj.contents.messageRenderer.text.runs)\<close>
  (\<^verbatim>\<open>runsToString\<close> comes from the module \<^verbatim>\<open>utils\<close>). The key \<^verbatim>\<open>trackingParams\<close> only causes a
  log line and is left out.
\<close>

record 'a YTChatResponse =
  error_object :: "(YTChatErrorStatus \<times> string) option"
  continuationContents :: "'a ContinuationContents option"
  contents_text :: "string option"

text \<open>
  What one \<^verbatim>\<open>await this.post(...)\<close> followed by \<^verbatim>\<open>await res.json()\<close> gives: an error
  whose \<^verbatim>\<open>type\<close> is \<^verbatim>\<open>"aborted"\<close>, another error, or a parsed body.
\<close>

datatype 'a attempt = PostAborted | PostFailed string | Responded "'a YTChatResponse"

text \<open>The result of a successful \<^verbatim>\<open>fetch\<close>; its \<^verbatim>\<open>error\<close> field is always \<^verbatim>\<open>null\<close>.\<close>

record 'b ChatResponse =
  actions :: "'b list"
  continuation :: "TimedContinuation option"
  error :: "fetch_error option"

text \<open>
  The functions of other modules that \<^verbatim>\<open>fetch\<close> and \<^verbatim>\<open>listen\<close> call, as
  parameters: \<^verbatim>\<open>parseChatAction\<close> (\<open>None\<close> for \<^verbatim>\<open>undefined\<close>), \<^verbatim>\<open>unwrapReplayActions\<close>,
  and the test \<^verbatim>\<open>action.type === "addChatItemAction"\<close>.
\<close>

record ('a, 'b) collaborators =
  parseChatAction :: "'a \<Rightarrow> 'b option"
  unwrapReplayActions :: "'a list \<Rightarrow> 'a list"
  isAddChatItemAction :: "'b \<Rightarrow> bool"

subsection \<open>The request\<close>

text \<open>
  The two endpoints (\<^verbatim>\<open>constants.EP_GLC\<close>, live, and \<^verbatim>\<open>constants.EP_GLCR\<close>, replay) and
  the continuation sent: the caller's token, or a fresh one built by \<^verbatim>\<open>lrc\<close> (live) or
  \<^verbatim>\<open>rtc\<close> (replay) from the channel and video identifiers and the top-chat flag. The
  builders, from the module \<^verbatim>\<open>protobuf/assembler\<close>, stay symbolic.
\<close>

datatype endpoint = EP_GLC | EP_GLCR

datatype continuation_param =
    GivenToken string
  | Lrc string string bool
  | Rtc string string bool

record request =
  requestUrl :: endpoint
  requestBody :: continuation_param

text \<open>
  \<^verbatim>\<open>applyNewLiveStatus(isLive)\<close> for a call with token \<open>tok\<close> (\<open>None\<close> when the first
  argument of \<^verbatim>\<open>fetch\<close> is not a string), on the session \<open>m\<close>, with top-chat flag
  \<open>tc\<close>.
\<close>

definition applyNewLiveStatus :: "string option \<Rightarrow> Masterchat \<Rightarrow> bool \<Rightarrow> bool \<Rightarrow> request" where
  "applyNewLiveStatus tok m tc live =
     \<lparr>requestUrl = (if live then EP_GLC else EP_GLCR),
      requestBody =
        (case tok of
           Some t \<Rightarrow> GivenToken t
         | None \<Rightarrow> if live then Lrc (channelId m) (videoId m) tc
                   else Rtc (channelId m) (videoId m) tc)\<rparr>"

subsection \<open>The retry loop\<close>

text \<open>\<^verbatim>\<open>/p/.test(s)\<close> for a pattern \<open>p\<close> without special characters: \<open>s\<close> contains \<open>p\<close>.\<close>

fun starts_with :: "string \<Rightarrow> string \<Rightarrow> bool" where
  "starts_with [] t = True"
| "starts_with (p # ps) [] = False"
| "starts_with (p # ps) (x # xs) = (p = x \<and> starts_with ps xs)"

fun regex_test :: "string \<Rightarrow> string \<Rightarrow> bool" where
  "regex_test p [] = (p = [])"
| "regex_test p (x # xs) = (starts_with p (x # xs) \<or> regex_test p xs)"

text \<open>
  What the \<^verbatim>\<open>try\<close> block throws: the error of an aborted request (\<^verbatim>\<open>type === "aborted"\<close>)
  or another error.
\<close>

datatype thrown = AbortedRequest | Thrown fetch_error

text \<open>
  The \<^verbatim>\<open>try\<close> block for one attempt, with \<^verbatim>\<open>retryRemaining\<close> equal to \<open>rr\<close> on entry:
  either a thrown value together with \<^verbatim>\<open>retryRemaining\<close> as the block leaves it, or
  the body of the response.
\<close>

definition try_block :: "'a attempt \<Rightarrow> nat \<Rightarrow> (thrown \<times> nat) + 'a YTChatResponse" where
  "try_block a rr =
     (case a of
        PostAborted \<Rightarrow> Inl (AbortedRequest, rr)
      | PostFailed n \<Rightarrow> Inl (Thrown (PostError n), rr)
      | Responded r \<Rightarrow>
          (case error_object r of
             None \<Rightarrow> Inr r
           | Some (status, message) \<Rightarrow>
               (case status of
                  PermissionDenied \<Rightarrow> Inl (Thrown (NoPermissionError message), 0)
                | NotFound \<Rightarrow> Inl (Thrown (UnavailableError message), 0)
                | Invalid \<Rightarrow> Inl (Thrown (InvalidArgumentError message), 0)
                | Unavailable \<Rightarrow> Inl (Thrown (Error message), rr)
                | Internal \<Rightarrow> Inl (Thrown (Error message), rr)
                | OtherStatus x \<Rightarrow> Inl (Thrown (Error message), rr))))"

text \<open>
  The code after the \<^verbatim>\<open>try\<close> statement, for a body without error and the current
  \<^verbatim>\<open>this.isLive\<close>: it returns, throws, or switches to the replay endpoint and goes round
  the loop again.
\<close>

datatype 'b verdict = Return "'b ChatResponse" | Throw fetch_error | SwitchToReplay

definition after_try ::
  "('a, 'b) collaborators \<Rightarrow> bool option \<Rightarrow> 'a YTChatResponse \<Rightarrow> 'b verdict" where
  "after_try d live r =
     (case continuationContents r of
        None \<Rightarrow>
          (case contents_text r of
             Some reason \<Rightarrow>
               if regex_test ''disabled'' reason then
                 (if live = None then SwitchToReplay else Throw (DisabledChatError reason))
               else if regex_test ''currently unavailable'' reason then
                 Throw (MembersOnlyError reason)
               else Return \<lparr>actions = [], continuation = None, error = None\<rparr>
           | None \<Rightarrow> Return \<lparr>actions = [], continuation = None, error = None\<rparr>)
      | Some cc \<Rightarrow>
          (case rawActions cc of
             None \<Rightarrow>
               Return \<lparr>actions = [], continuation = timedContinuation cc, error = None\<rparr>
           | Some ra \<Rightarrow>
               Return \<lparr>actions =
                         List.map_filter (parseChatAction d)
                           (if \<not> isLive_or_true live then unwrapReplayActions d ra else ra),
                       continuation = timedContinuation cc, error = None\<rparr>))"

text \<open>
  What a call of \<^verbatim>\<open>fetch\<close> does besides computing its result, in order: the requests
  it posts, the delays it awaits, and the log line \<^verbatim>\<open>"switched to replay endpoint"\<close>
  (of the log lines only this one is kept: it marks the switch).
\<close>

datatype effect = Post request | Delay int | LogSwitched

text \<open>
  The outcome of a call: the value returned or the error thrown, the session object
  after the call, the effects, and the value of \<^verbatim>\<open>retryRemaining\<close> at the end.
\<close>

record 'b fetch_result =
  outcome :: "fetch_error + 'b ChatResponse"
  session :: Masterchat
  effects :: "effect list"
  budget :: nat

definition more_effects :: "effect list \<Rightarrow> 'b fetch_result \<Rightarrow> 'b fetch_result" where
  "more_effects es r = r\<lparr>effects := es @ effects r\<rparr>"

text \<open>
  What stays fixed during a call: the functions from outside, the answers of the
  remote service (\<open>server i\<close> answers the \<open>i\<close>-th request of the call, counted from
  0), whether the abort signal handed to \<^verbatim>\<open>post\<close> is aborted, the token argument and the
  top-chat flag.
\<close>

record ('a, 'b) fetch_call =
  collab :: "('a, 'b) collaborators"
  server :: "nat \<Rightarrow> 'a attempt"
  signal_aborted :: bool
  token_arg :: "string option"
  topChat :: bool

text \<open>
  Modelled from the spec: \<^verbatim>\<open>ytFetch\<close> (module \<^verbatim>\<open>utils\<close>), which is missing here and to
  which \<^verbatim>\<open>post\<close> hands the session's abort signal. A request under an aborted signal
  fails at once as aborted, whatever the remote service would answer.
\<close>

definition post :: "('a, 'b) fetch_call \<Rightarrow> nat \<Rightarrow> 'a attempt" where
  "post k i = (if signal_aborted k then PostAborted else server k i)"

definition retryInterval :: int where
  "retryInterval = 3000"

text \<open>
  The loop \<^verbatim>\<open>loop: while (true)\<close>, entered for the \<open>i\<close>-th request with the session
  \<open>m\<close>, \<^verbatim>\<open>retryRemaining = rr\<close> and the request \<open>req\<close>. The \<^verbatim>\<open>catch\<close> block rethrows an
  aborted request as \<^verbatim>\<open>AbortError\<close>, retries after \<^verbatim>\<open>delay(retryInterval)\<close> while
  \<^verbatim>\<open>retryRemaining > 0\<close>, and rethrows the error otherwise. Every turn either uses up a
  retry or changes \<^verbatim>\<open>isLive\<close> from \<^verbatim>\<open>undefined\<close> to \<^verbatim>\<open>false\<close>, so the loop ends.
\<close>

function fetch_loop ::
  "('a, 'b) fetch_call \<Rightarrow> nat \<Rightarrow> Masterchat \<Rightarrow> nat \<Rightarrow> request \<Rightarrow> 'b fetch_result" where
  "fetch_loop k i m rr req =
     (case try_block (post k i) rr of
        Inl (AbortedRequest, rr') \<Rightarrow>
          \<lparr>outcome = Inl AbortError, session = m, effects = [Post req], budget = rr'\<rparr>
      | Inl (Thrown err, rr') \<Rightarrow>
          if rr' > 0 then
            more_effects [Post req, Delay retryInterval] (fetch_loop k (i + 1) m (rr' - 1) req)
          else \<lparr>outcome = Inl err, session = m, effects = [Post req], budget = rr'\<rparr>
      | Inr r \<Rightarrow>
          (case after_try (collab k) (isLive m) r of
             Return res \<Rightarrow>
               \<lparr>outcome = Inr res, session = m, effects = [Post req], budget = rr\<rparr>
           | Throw err \<Rightarrow>
               \<lparr>outcome = Inl err, session = m, effects = [Post req], budget = rr\<rparr>
           | SwitchToReplay \<Rightarrow>
               more_effects [Post req, LogSwitched]
                 (fetch_loop k (i + 1) (m\<lparr>isLive := Some False\<rparr>) rr
                    (applyNewLiveStatus (token_arg k) m (topChat k) False))))"
  by pat_completeness auto
termination
  by (relation "measure (\<lambda>(k, i, m, rr, req). rr + (if isLive m = None then 1 else 0))")
     (auto simp: try_block_def after_try_def
        split: attempt.splits option.splits YTChatErrorStatus.splits if_splits)

declare fetch_loop.simps [simp del]

text \<open>
  \<^verbatim>\<open>fetch(tokenOrOptions, maybeOptions)\<close>: \<open>tc\<close> is \<^verbatim>\<open>options.topChat\<close> (\<open>None\<close> when
  absent, read as \<^verbatim>\<open>false\<close>), \<^verbatim>\<open>retryRemaining\<close> starts at 3, and the first request is
  built by \<^verbatim>\<open>applyNewLiveStatus(this.isLive ?? true)\<close>.
\<close>

definition fetch ::
  "('a, 'b) collaborators \<Rightarrow> (nat \<Rightarrow> 'a attempt) \<Rightarrow> bool \<Rightarrow> Masterchat \<Rightarrow> string option \<Rightarrow>
   bool option \<Rightarrow> 'b fetch_result" where
  "fetch d srv ab m tok tc =
     (let k = \<lparr>collab = d, server = srv, signal_aborted = ab, token_arg = tok,
                topChat = (case tc of None \<Rightarrow> False | Some b \<Rightarrow> b)\<rparr>
      in fetch_loop k 0 m 3 (applyNewLiveStatus tok m (topChat k) (isLive_or_true (isLive m))))"

subsection \<open>Notions for the properties of \<^verbatim>\<open>fetch\<close>\<close>

text \<open>The number of requests a call posted, and the number of times it switched endpoint.\<close>

definition attempts :: "'b fetch_result \<Rightarrow> nat" where
  "attempts r = length (filter (\<lambda>e. case e of Post q \<Rightarrow> True | _ \<Rightarrow> False) (effects r))"

definition switches :: "'b fetch_result \<Rightarrow> nat" where
  "switches r = length (filter (\<lambda>e. e = LogSwitched) (effects r))"

text \<open>The effects of \<open>n\<close> failed attempts on the request \<open>req\<close>, each followed by the backoff delay.\<close>

fun retries :: "nat \<Rightarrow> request \<Rightarrow> effect list" where
  "retries 0 req = []"
| "retries (Suc n) req = Post req # Delay retryInterval # retries n req"

text \<open>
  A transient failure is a transport-level error other than an abort, or an answer
  with status unavailable or internal; \<open>transient_error\<close> is the error the \<^verbatim>\<open>try\<close>
  block throws for it.
\<close>

fun transient :: "'a attempt \<Rightarrow> bool" where
  "transient PostAborted = False"
| "transient (PostFailed n) = True"
| "transient (Responded r) =
     (case error_object r of
        Some (Unavailable, m) \<Rightarrow> True
      | Some (Internal, m) \<Rightarrow> True
      | _ \<Rightarrow> False)"

fun transient_error :: "'a attempt \<Rightarrow> fetch_error" where
  "transient_error (PostFailed n) = PostError n"
| "transient_error (Responded r) = Error (case error_object r of Some (st, m) \<Rightarrow> m | None \<Rightarrow> [])"
| "transient_error PostAborted = AbortError"

text \<open>The statuses that end the call at once, and the error each one raises.\<close>

fun fatal_status :: "YTChatErrorStatus \<Rightarrow> bool" where
  "fatal_status PermissionDenied = True"
| "fatal_status NotFound = True"
| "fatal_status Invalid = True"
| "fatal_status st = False"

fun fatal_error :: "YTChatErrorStatus \<Rightarrow> string \<Rightarrow> fetch_error" where
  "fatal_error PermissionDenied m = NoPermissionError m"
| "fatal_error NotFound m = UnavailableError m"
| "fatal_error Invalid m = InvalidArgumentError m"
| "fatal_error st m = Error m"

text \<open>
  An answer without error and without \<^verbatim>\<open>continuationContents\<close> whose contents text says
  that chat is disabled.
\<close>

definition chat_disabled :: "'a YTChatResponse \<Rightarrow> string \<Rightarrow> bool" where
  "chat_disabled r reason =
     (error_object r = None \<and> continuationContents r = None
      \<and> contents_text r = Some reason \<and> regex_test ''disabled'' reason)"

text \<open>
  The successive polls of one session: each call of \<^verbatim>\<open>fetch\<close> (its answers, whether its
  signal is aborted, its token and top-chat flag) runs on the session object the
  previous call left. The result is the total number of endpoint switches and the
  session object at the end.
\<close>

type_synonym 'a poll = "(nat \<Rightarrow> 'a attempt) \<times> bool \<times> string option \<times> bool option"

fun fetch_calls ::
  "('a, 'b) collaborators \<Rightarrow> 'a poll list \<Rightarrow> Masterchat \<Rightarrow> nat \<times> Masterchat" where
  "fetch_calls d [] m = (0, m)"
| "fetch_calls d ((srv, ab, tok, tc) # ps) m =
     (let r = fetch d srv ab m tok tc;
          (n, m') = fetch_calls d ps (session r)
      in (switches r + n, m'))"

subsection \<open>Concrete inputs\<close>

text \<open>
  Inputs on which the theorems below are instantiated: raw actions and parsed actions
  are numbers, every raw action parses to itself, and replay envelopes are unwrapped
  by the identity.
\<close>

definition plain_collab :: "(nat, nat) collaborators" where
  "plain_collab =
     \<lparr>parseChatAction = Some, unwrapReplayActions = (\<lambda>x. x), isAddChatItemAction = (\<lambda>a. True)\<rparr>"

definition error_response :: "YTChatErrorStatus \<Rightarrow> string \<Rightarrow> nat attempt" where
  "error_response st msg =
     Responded \<lparr>error_object = Some (st, msg), continuationContents = None, contents_text = None\<rparr>"

definition text_response :: "string \<Rightarrow> nat attempt" where
  "text_response reason =
     Responded \<lparr>error_object = None, continuationContents = None, contents_text = Some reason\<rparr>"

definition chat_response :: "TimedContinuation option \<Rightarrow> nat list \<Rightarrow> nat attempt" where
  "chat_response k as =
     Responded \<lparr>error_object = None,
                continuationContents = Some \<lparr>timedContinuation = k, rawActions = Some as\<rparr>,
                contents_text = None\<rparr>"

definition plain_call :: "(nat \<Rightarrow> nat attempt) \<Rightarrow> (nat, nat) fetch_call" where
  "plain_call srv =
     \<lparr>collab = plain_collab, server = srv, signal_aborted = False, token_arg = None,
      topChat = False\<rparr>"

section \<open>The polling loop: \<^verbatim>\<open>listen\<close>, \<^verbatim>\<open>iterate\<close> and \<^verbatim>\<open>stop\<close>\<close>

text \<open>
  \<^verbatim>\<open>listen\<close> starts an asynchronous task that runs the generator \<^verbatim>\<open>iterate\<close> and emits
  events; \<^verbatim>\<open>stop\<close> may be called while that task is suspended. The session is therefore
  a transition system: a state (the object, the abort controllers and promises created
  so far, the polling loops that have not ended, the clock, the events emitted) and
  one transition for each thing that can happen: a call of \<^verbatim>\<open>listen\<close>, a call of \<^verbatim>\<open>stop\<close>,
  and the completion of what a polling loop is suspended on.
\<close>

subsection \<open>State\<close>

text \<open>The events a session emits: \<^verbatim>\<open>data\<close>, \<^verbatim>\<open>actions\<close>, \<^verbatim>\<open>chats\<close>, \<^verbatim>\<open>end\<close> and \<^verbatim>\<open>error\<close>.\<close>

datatype 'b event =
    Data "'b ChatResponse"
  | Actions "'b list"
  | Chats "'b list"
  | End
  | ErrorEvent fetch_error

text \<open>How a promise has settled.\<close>

datatype settlement = Fulfilled | Rejected fetch_error

text \<open>
  Where a polling loop is suspended: in \<^verbatim>\<open>await this.fetch(token)\<close>; after the fetch
  returned \<open>res\<close> and \<^verbatim>\<open>startMs = Date.now()\<close> was read, at the \<^verbatim>\<open>yield\<close> (or about to go on,
  when the first response is ignored); or in \<^verbatim>\<open>await delay(timeoutMs, signal)\<close>.
\<close>

datatype 'b pc = AwaitFetch | AfterFetch "'b ChatResponse" int | AwaitDelay int

text \<open>
  One run of \<^verbatim>\<open>makePromise\<close>: the \<^verbatim>\<open>ChatListener\<close> promise built on it, the signal that
  \<^verbatim>\<open>iterate\<close> captured (\<^verbatim>\<open>const signal = this.listenerAbortion.signal\<close>), the locals
  \<^verbatim>\<open>ignoreFirstResponse\<close>, \<^verbatim>\<open>treatedFirstResponse\<close> and \<^verbatim>\<open>token\<close> (\<open>None\<close> while \<^verbatim>\<open>token\<close> is
  the object \<^verbatim>\<open>{ top: topChat }\<close>, a string afterwards), and where it is suspended.
\<close>

record 'b polling_loop =
  promise :: nat
  signal :: nat
  ignoreFirstResponse :: bool
  treatedFirstResponse :: bool
  loop_token :: "string option"
  pc :: "'b pc"

text \<open>
  The state of a session. \<open>signals\<close> holds, for every \<^verbatim>\<open>AbortController\<close> created so
  far, whether it has been aborted; \<open>promises\<close> holds, for every \<^verbatim>\<open>ChatListener\<close>
  promise created so far, how it settled (\<open>None\<close> while pending); the identity of a
  controller or a promise is its index. \<open>errorListeners\<close> says whether
  \<^verbatim>\<open>emit("error", err)\<close> returns: there is a listener for \<^verbatim>\<open>error\<close>, and it does not
  throw. \<open>chatsListeners\<close> says whether \<^verbatim>\<open>listenerCount("chats")\<close> is positive.
\<close>

record 'b world =
  mc :: Masterchat
  signals :: "bool list"
  promises :: "settlement option list"
  loops :: "'b polling_loop list"
  clock :: int
  emitted :: "'b event list"
  errorListeners :: bool
  chatsListeners :: bool

text \<open>
  A new session: the object as constructed, with its first controller; the clock
  counts the milliseconds since then.
\<close>

definition newWorld :: "string \<Rightarrow> string \<Rightarrow> chat_mode option \<Rightarrow> bool \<Rightarrow> bool \<Rightarrow> 'b world" where
  "newWorld vid cid mode el cl =
     \<lparr>mc = newMasterchat vid cid mode 0, signals = [False], promises = [], loops = [],
      clock = 0, emitted = [], errorListeners = el, chatsListeners = cl\<rparr>"

definition is_aborted :: "'b world \<Rightarrow> nat \<Rightarrow> bool" where
  "is_aborted w i = (i < length (signals w) \<and> signals w ! i)"

text \<open>\<^verbatim>\<open>get stopped() { return this.listener === null }\<close>.\<close>

definition stopped :: "'b world \<Rightarrow> bool" where
  "stopped w = (listener (mc w) = None)"

subsection \<open>\<^verbatim>\<open>listen\<close> and \<^verbatim>\<open>stop\<close>\<close>

text \<open>
  \<^verbatim>\<open>IterateChatOptions\<close>. The option \<^verbatim>\<open>topChat\<close> only enters the object \<^verbatim>\<open>{ top: topChat }\<close>,
  in which \<^verbatim>\<open>fetch\<close> looks for the key \<^verbatim>\<open>topChat\<close> and finds none; it has no effect and
  is left out. An absent or empty \<^verbatim>\<open>continuation\<close> is falsy.
\<close>

record iterate_options =
  opt_ignoreFirstResponse :: bool
  opt_continuation :: "string option"

definition initial_token :: "iterate_options option \<Rightarrow> string option" where
  "initial_token opts =
     (case opts of
        None \<Rightarrow> None
      | Some x \<Rightarrow> (case opt_continuation x of
                    None \<Rightarrow> None
                  | Some t \<Rightarrow> if t = [] then None else Some t))"

text \<open>
  \<^verbatim>\<open>listen(iterateOptions)\<close> returns the promise and the new state. With a listener
  present it returns it and does nothing else. Otherwise it creates a new
  \<^verbatim>\<open>AbortController\<close> and starts \<^verbatim>\<open>makePromise\<close>, which runs \<^verbatim>\<open>iterate\<close> up to its first
  suspension: the signal of the new controller is captured (it is not aborted, so the
  check at the head of \<^verbatim>\<open>iterate\<close> passes), the locals are initialised and the first
  \<^verbatim>\<open>fetch\<close> is awaited. The promise of the chain
  \<^verbatim>\<open>makePromise(...).then(...).catch(...).finally(...)\<close> is new and pending.
\<close>

definition listen :: "iterate_options option \<Rightarrow> 'b world \<Rightarrow> nat \<times> 'b world" where
  "listen opts w =
     (case listener (mc w) of
        Some p \<Rightarrow> (p, w)
      | None \<Rightarrow>
          (let ctl = length (signals w);
               p = length (promises w);
               l = \<lparr>promise = p, signal = ctl,
                    ignoreFirstResponse =
                      (case opts of None \<Rightarrow> False | Some x \<Rightarrow> opt_ignoreFirstResponse x),
                    treatedFirstResponse = False,
                    loop_token = initial_token opts,
                    pc = AwaitFetch\<rparr>
           in (p, w\<lparr>mc := (mc w)\<lparr>listenerAbortion := ctl, listener := Some p\<rparr>,
                    signals := signals w @ [False],
                    promises := promises w @ [None],
                    loops := loops w @ [l]\<rparr>)))"

text \<open>
  \<^verbatim>\<open>stop()\<close>: nothing without a listener; otherwise the current controller is aborted
  and \<^verbatim>\<open>end\<close> is emitted.
\<close>

definition stop :: "'b world \<Rightarrow> 'b world" where
  "stop w =
     (case listener (mc w) of
        None \<Rightarrow> w
      | Some p \<Rightarrow> w\<lparr>signals := (signals w)[listenerAbortion (mc w) := True],
                    emitted := emitted w @ [End]\<rparr>)"

subsection \<open>The end of a polling loop\<close>

text \<open>
  The reactions on the promise of \<^verbatim>\<open>makePromise\<close>, run when loop \<open>k\<close> ends normally
  (\<open>None\<close>) or by throwing \<open>err\<close> (\<open>Some err\<close>): \<^verbatim>\<open>then\<close> emits \<^verbatim>\<open>end\<close>; \<^verbatim>\<open>catch\<close> returns
  on an \<^verbatim>\<open>AbortError\<close> and emits \<^verbatim>\<open>error\<close> otherwise; \<^verbatim>\<open>finally\<close> sets \<^verbatim>\<open>this.listener\<close> to
  \<^verbatim>\<open>null\<close>. The \<^verbatim>\<open>ChatListener\<close> promise is fulfilled, unless \<^verbatim>\<open>emit("error", err)\<close> throws:
  it finds no listener for \<^verbatim>\<open>error\<close>, in which case an \<^verbatim>\<open>EventEmitter\<close> throws \<open>err\<close>, or its
  listener throws \<open>err\<close>; the promise is then rejected with it. Handlers of the other
  events are taken not to throw.
\<close>

definition settle :: "nat \<Rightarrow> fetch_error option \<Rightarrow> 'b world \<Rightarrow> 'b world" where
  "settle k out w =
     w\<lparr>mc := (mc w)\<lparr>listener := None\<rparr>,
       emitted := emitted w @
         (case out of
            None \<Rightarrow> [End]
          | Some err \<Rightarrow> if err = AbortError then [] else [ErrorEvent err]),
       promises := (promises w)[promise (loops w ! k) :=
         Some (case out of
                 None \<Rightarrow> Fulfilled
               | Some err \<Rightarrow>
                   if err = AbortError \<or> errorListeners w then Fulfilled else Rejected err)],
       loops := take k (loops w) @ drop (Suc k) (loops w)\<rparr>"

subsection \<open>One turn of \<^verbatim>\<open>iterate\<close>\<close>

text \<open>
  The wait after a response with a continuation. With \<^verbatim>\<open>this.isLive ?? true\<close>:
  \<^verbatim>\<open>driftMs = Date.now() - startMs\<close>, \<^verbatim>\<open>timeoutMs = continuation.timeoutMs - driftMs\<close>, and
  \<^verbatim>\<open>delay(timeoutMs, signal)\<close> is awaited if \<^verbatim>\<open>timeoutMs > 0\<close>. The result is the delay
  awaited, \<open>None\<close> when there is none.
\<close>

definition drift_wait :: "bool option \<Rightarrow> int \<Rightarrow> int \<Rightarrow> int \<Rightarrow> int option" where
  "drift_wait live timeout startMs now =
     (if isLive_or_true live then
        (let driftMs = now - startMs;
             t = timeout - driftMs
         in if t > 0 then Some t else None)
      else None)"

text \<open>
  What the environment contributes when a suspended loop goes on: the answers of the
  remote service to the requests of a fetch, and the time in milliseconds that has
  passed since the loop was suspended (the duration of the fetch; at the \<^verbatim>\<open>yield\<close>, the
  time the consumer kept the response before asking for the next one).
\<close>

record 'a tick =
  answers :: "nat \<Rightarrow> 'a attempt"
  elapsed :: nat

text \<open>The loop body \<^verbatim>\<open>for await (const res of this.iterate(...))\<close> of \<^verbatim>\<open>makePromise\<close>.\<close>

definition yielded_events :: "('a, 'b) collaborators \<Rightarrow> bool \<Rightarrow> 'b ChatResponse \<Rightarrow> 'b event list" where
  "yielded_events d cl res =
     [Data res, Actions (actions res)]
     @ (if cl then [Chats (filter (isAddChatItemAction d) (actions res))] else [])"

definition set_loop :: "nat \<Rightarrow> 'b polling_loop \<Rightarrow> 'b world \<Rightarrow> 'b world" where
  "set_loop k l w = w\<lparr>loops := (loops w)[k := l]\<rparr>"

text \<open>
  Modelled from the spec: \<^verbatim>\<open>delay(ms, signal)\<close> of the module \<^verbatim>\<open>utils\<close>, which is missing here.
  It rejects with \<^verbatim>\<open>AbortError\<close> when its signal is aborted, at the call or during the
  wait, and resolves after \<open>ms\<close> milliseconds otherwise. The result is the error it
  rejects with, \<open>None\<close> when it resolves.
\<close>

definition delay_rejects :: "bool \<Rightarrow> fetch_error option" where
  "delay_rejects signal_is_aborted = (if signal_is_aborted then Some AbortError else None)"

text \<open>
  \<open>advance d k x w\<close> lets loop \<open>k\<close> go on from where it is suspended.
  \<^item> In \<^verbatim>\<open>await this.fetch(token)\<close>: the fetch runs with the answers of \<open>x\<close>, under the
    signal of the current controller (\<^verbatim>\<open>post\<close> reads \<^verbatim>\<open>this.listenerAbortion.signal\<close>), and
    takes \<open>elapsed x\<close>; an error ends the loop; a response is yielded, unless it is an
    ignored first response, and the body of \<^verbatim>\<open>for await\<close> emits its events.
  \<^item> After the fetch: \<^verbatim>\<open>treatedFirstResponse\<close> is set; without a continuation the loop
    ends normally; otherwise the token is replaced and the wait is computed from the
    clock, \<open>elapsed x\<close> after \<^verbatim>\<open>startMs\<close> was read; a delay that rejects ends the loop.
  \<^item> In \<^verbatim>\<open>await delay(timeoutMs, signal)\<close>: the delay, on the captured signal, rejects
    and ends the loop, or resolves after its time.
\<close>

definition advance :: "('a, 'b) collaborators \<Rightarrow> nat \<Rightarrow> 'a tick \<Rightarrow> 'b world \<Rightarrow> 'b world" where
  "advance d k x w =
     (if k < length (loops w) then
        (let l = loops w ! k in
         case pc l of
           AwaitFetch \<Rightarrow>
             (let r = fetch d (answers x) (is_aborted w (listenerAbortion (mc w))) (mc w)
                        (loop_token l) None;
                  w1 = w\<lparr>mc := session r, clock := clock w + int (elapsed x)\<rparr>
              in case outcome r of
                   Inl err \<Rightarrow> settle k (Some err) w1
                 | Inr res \<Rightarrow>
                     set_loop k (l\<lparr>pc := AfterFetch res (clock w1)\<rparr>)
                       (if \<not> (ignoreFirstResponse l \<and> \<not> treatedFirstResponse l)
                        then w1\<lparr>emitted := emitted w1 @ yielded_events d (chatsListeners w1) res\<rparr>
                        else w1))
         | AfterFetch res startMs \<Rightarrow>
             (let l1 = l\<lparr>treatedFirstResponse := True\<rparr> in
              case continuation res of
                None \<Rightarrow> settle k None w
              | Some cont \<Rightarrow>
                  (let l2 = l1\<lparr>loop_token := Some (token cont)\<rparr>;
                       w1 = w\<lparr>clock := clock w + int (elapsed x)\<rparr>
                   in case drift_wait (isLive (mc w)) (timeoutMs cont) startMs (clock w1) of
                        None \<Rightarrow> set_loop k (l2\<lparr>pc := AwaitFetch\<rparr>) w1
                      | Some t \<Rightarrow>
                          (case delay_rejects (is_aborted w (signal l)) of
                             Some err \<Rightarrow> settle k (Some err) w1
                           | None \<Rightarrow> set_loop k (l2\<lparr>pc := AwaitDelay t\<rparr>) w1)))
         | AwaitDelay t \<Rightarrow>
             (case delay_rejects (is_aborted w (signal l)) of
                Some err \<Rightarrow> settle k (Some err) w
              | None \<Rightarrow> set_loop k (l\<lparr>pc := AwaitFetch\<rparr>) (w\<lparr>clock := clock w + t\<rparr>)))
      else w)"

subsection \<open>Runs of a session\<close>

datatype 'a input = CallListen "iterate_options option" | CallStop | Advance nat "'a tick"

fun step :: "('a, 'b) collaborators \<Rightarrow> 'a input \<Rightarrow> 'b world \<Rightarrow> 'b world" where
  "step d (CallListen opts) w = snd (listen opts w)"
| "step d CallStop w = stop w"
| "step d (Advance k x) w = advance d k x w"

fun run :: "('a, 'b) collaborators \<Rightarrow> 'a input list \<Rightarrow> 'b world \<Rightarrow> 'b world" where
  "run d [] w = w"
| "run d (i # is) w = run d is (step d i w)"

text \<open>Whether an event is an \<^verbatim>\<open>error\<close> event, and whether an input is a call of \<^verbatim>\<open>listen\<close>.\<close>

fun is_error_event :: "'b event \<Rightarrow> bool" where
  "is_error_event (ErrorEvent e) = True"
| "is_error_event e = False"

fun is_listen :: "'a input \<Rightarrow> bool" where
  "is_listen (CallListen opts) = True"
| "is_listen i = False"

text \<open>
  The shape every state of a run has: without a listener there is no polling loop;
  with the listener \<open>p\<close> there is exactly one, it settles \<open>p\<close>, which is pending, and
  the signal it captured is the signal of the current controller.
\<close>

definition consistent :: "'b world \<Rightarrow> bool" where
  "consistent w =
     (listenerAbortion (mc w) < length (signals w)
      \<and> (case listener (mc w) of
           None \<Rightarrow> loops w = []
         | Some p \<Rightarrow>
             length (loops w) = 1 \<and> promise (loops w ! 0) = p
             \<and> signal (loops w ! 0) = listenerAbortion (mc w)
             \<and> p < length (promises w) \<and> promises w ! p = None))"

text \<open>
  The states after \<^verbatim>\<open>stop\<close>, for the listener \<open>p\<close> that was stopped: either its loop is
  still there, with an aborted signal, or it has ended and \<open>p\<close> is fulfilled.
\<close>

definition stopping :: "nat \<Rightarrow> 'b world \<Rightarrow> bool" where
  "stopping p w =
     (consistent w
      \<and> (case listener (mc w) of
           None \<Rightarrow> p < length (promises w) \<and> promises w ! p = Some Fulfilled
         | Some q \<Rightarrow> q = p \<and> is_aborted w (listenerAbortion (mc w))))"

subsection \<open>Concrete inputs for sessions\<close>

text \<open>
  A remote service that gives every request the same answer, and a tick with given
  answers and elapsed time.
\<close>

definition always :: "'a attempt \<Rightarrow> nat \<Rightarrow> 'a attempt" where
  "always a i = a"

definition tick :: "(nat \<Rightarrow> 'a attempt) \<Rightarrow> nat \<Rightarrow> 'a tick" where
  "tick srv ms = \<lparr>answers = srv, elapsed = ms\<rparr>"

text \<open>A batch with one action and a continuation that asks for the next poll in 5000 ms.\<close>

definition batch5000 :: "nat attempt" where
  "batch5000 = chat_response (Some \<lparr>token = ''t1'', timeoutMs = 5000\<rparr>) [7]"

text \<open>A session in live mode and one in replay mode, each after \<^verbatim>\<open>listen()\<close>.\<close>

definition live_world :: "nat world" where
  "live_world = snd (listen None (newWorld ''v'' ''c'' (Some Live) True True))"

definition replay_world :: "nat world" where
  "replay_world = snd (listen None (newWorld ''v'' ''c'' (Some Replay) True True))"

text \<open>
  Inputs that bring a new session into its drift-compensated wait: \<^verbatim>\<open>listen()\<close>, a fetch
  of 1200 ms that returns the batch, and a consumer that takes no time.
\<close>

definition waiting_inputs :: "nat input list" where
  "waiting_inputs =
     [CallListen None, Advance 0 (tick (always batch5000) 1200),
      Advance 0 (tick (always batch5000) 0)]"

section \<open>The pool of sessions: \<^verbatim>\<open>StreamPool\<close>\<close>

text \<open>
  The metadata attached to the events the pool emits (\<^verbatim>\<open>channelName\<close> and \<^verbatim>\<open>title\<close> are
  only set by \<^verbatim>\<open>populateMetadata\<close>, which the pool never calls).
\<close>

record Metadata =
  md_videoId :: string
  md_channelId :: string
  md_isLive :: "bool option"

definition metadata :: "Masterchat \<Rightarrow> Metadata" where
  "metadata m = \<lparr>md_videoId = videoId m, md_channelId = channelId m, md_isLive = isLive m\<rparr>"

text \<open>
  The pool: the \<^verbatim>\<open>Map\<close> from video identifiers to \<^verbatim>\<open>Masterchat\<close> objects, the options,
  the flag \<^verbatim>\<open>started\<close>, and the events the pool has emitted. The objects the pool has
  constructed are kept in \<open>sessions\<close>, each with the state of its session; a handle
  is an index into that list, and the \<^verbatim>\<open>Map\<close> holds handles. Of the options only the
  mode matters here. The pool is an \<^verbatim>\<open>EventEmitter\<close> itself: \<open>errorListening\<close> says
  whether it has a listener for \<^verbatim>\<open>error\<close>.
\<close>

record 'b StreamPool =
  pool :: "string \<rightharpoonup> nat"
  sessions :: "'b world list"
  options :: "chat_mode option"
  started :: bool
  relayed :: "('b event \<times> Metadata) list"
  errorListening :: bool

definition newStreamPool :: "chat_mode option \<Rightarrow> bool \<Rightarrow> 'b StreamPool" where
  "newStreamPool opts el =
     \<lparr>pool = Map.empty, sessions = [], options = opts, started = False, relayed = [],
      errorListening = el\<rparr>"

text \<open>\<^verbatim>\<open>has(videoId)\<close>.\<close>

definition has :: "'b StreamPool \<Rightarrow> string \<Rightarrow> bool" where
  "has st vid = (pool st vid \<noteq> None)"

text \<open>
  The handlers \<^verbatim>\<open>subscribe\<close> registers on a session \<open>h\<close>: \<^verbatim>\<open>_handleEnd\<close> and
  \<^verbatim>\<open>_handleError\<close> delete the key \<^verbatim>\<open>mc.videoId\<close> from the \<^verbatim>\<open>Map\<close> and then emit; the others
  emit. Every event goes out with \<^verbatim>\<open>mc.metadata\<close>. When the pool has no listener for
  \<^verbatim>\<open>error\<close>, \<^verbatim>\<open>this.emit("error", err, mc.metadata)\<close> throws \<open>err\<close> after the key has been
  deleted, and nothing goes out.
\<close>

definition handle_event :: "nat \<Rightarrow> 'b StreamPool \<Rightarrow> 'b event \<Rightarrow> 'b StreamPool" where
  "handle_event h st e =
     (let m = mc (sessions st ! h);
          st' = (case e of
                   End \<Rightarrow> st\<lparr>pool := (pool st)(videoId m := None)\<rparr>
                 | ErrorEvent err \<Rightarrow> st\<lparr>pool := (pool st)(videoId m := None)\<rparr>
                 | _ \<Rightarrow> st)
      in case e of
           ErrorEvent err \<Rightarrow>
             if errorListening st then st'\<lparr>relayed := relayed st' @ [(e, metadata m)]\<rparr>
             else st'
         | _ \<Rightarrow> st'\<lparr>relayed := relayed st' @ [(e, metadata m)]\<rparr>)"

text \<open>
  Session \<open>h\<close> makes the transition \<open>f\<close>; the events it emits in doing so reach the
  handlers of the pool, in order.
\<close>

definition act :: "nat \<Rightarrow> ('b world \<Rightarrow> 'b world) \<Rightarrow> 'b StreamPool \<Rightarrow> 'b StreamPool" where
  "act h f st =
     (if h < length (sessions st) then
        (let w = sessions st ! h;
             w' = f w
         in foldl (handle_event h) (st\<lparr>sessions := (sessions st)[h := w']\<rparr>)
              (drop (length (emitted w)) (emitted w')))
      else st)"

text \<open>
  \<^verbatim>\<open>subscribe(videoId, channelId, iterateOptions)\<close> returns the handle and the new pool.
  With the key present it returns what the \<^verbatim>\<open>Map\<close> holds. Otherwise it constructs a
  \<^verbatim>\<open>Masterchat\<close> with the pool's options, registers its five handlers, calls \<^verbatim>\<open>listen\<close>,
  sets \<^verbatim>\<open>started\<close> and stores the object under the key. With the handlers registered
  the session has a listener for \<^verbatim>\<open>chats\<close>; its listener for \<^verbatim>\<open>error\<close> is \<^verbatim>\<open>_handleError\<close>,
  which throws what the pool's own \<^verbatim>\<open>emit("error", ...)\<close> throws, so that \<^verbatim>\<open>emit("error", err)\<close>
  on the session returns exactly when the pool has a listener for \<^verbatim>\<open>error\<close>. The timer
  that \<^verbatim>\<open>ensure\<close> starts only reads the size of the
  \<^verbatim>\<open>Map\<close> and is left out.
\<close>

definition subscribe ::
  "string \<Rightarrow> string \<Rightarrow> iterate_options option \<Rightarrow> 'b StreamPool \<Rightarrow> nat \<times> 'b StreamPool" where
  "subscribe vid cid opts st =
     (case pool st vid of
        Some h \<Rightarrow> (h, st)
      | None \<Rightarrow>
          (let h = length (sessions st);
               w = snd (listen opts (newWorld vid cid (options st) (errorListening st) True))
           in (h, st\<lparr>sessions := sessions st @ [w], started := True,
                     pool := (pool st)(vid \<mapsto> h)\<rparr>)))"

text \<open>\<^verbatim>\<open>unsubscribe(videoId)\<close>: \<^verbatim>\<open>stop\<close> on the object under the key, if there is one.\<close>

definition unsubscribe :: "string \<Rightarrow> 'b StreamPool \<Rightarrow> 'b StreamPool" where
  "unsubscribe vid st = (case pool st vid of None \<Rightarrow> st | Some h \<Rightarrow> act h stop st)"

text \<open>
  What can happen to a pool: \<^verbatim>\<open>subscribe\<close>, \<^verbatim>\<open>unsubscribe\<close>, and a transition of one of its
  sessions (the holder of a handle calling \<^verbatim>\<open>listen\<close> or \<^verbatim>\<open>stop\<close> on it, or a polling
  loop going on).
\<close>

datatype 'a pool_input =
    Subscribe string string "iterate_options option"
  | Unsubscribe string
  | OnSession nat "'a input"

fun pool_step :: "('a, 'b) collaborators \<Rightarrow> 'a pool_input \<Rightarrow> 'b StreamPool \<Rightarrow> 'b StreamPool" where
  "pool_step d (Subscribe vid cid opts) st = snd (subscribe vid cid opts st)"
| "pool_step d (Unsubscribe vid) st = unsubscribe vid st"
| "pool_step d (OnSession h i) st = act h (step d i) st"

fun pool_run :: "('a, 'b) collaborators \<Rightarrow> 'a pool_input list \<Rightarrow> 'b StreamPool \<Rightarrow> 'b StreamPool" where
  "pool_run d [] st = st"
| "pool_run d (i # is) st = pool_run d is (pool_step d i st)"

text \<open>Every key of the \<^verbatim>\<open>Map\<close> holds a session the pool constructed for that very key.\<close>

definition registry_ok :: "'b StreamPool \<Rightarrow> bool" where
  "registry_ok st =
     (\<forall>vid h. pool st vid = Some h \<longrightarrow>
        h < length (sessions st) \<and> videoId (mc (sessions st ! h)) = vid)"

subsection \<open>Concrete inputs for pools\<close>

text \<open>
  A caller that subscribes to a stream, unsubscribes, subscribes again, calls \<^verbatim>\<open>stop()\<close> on
  the \<^verbatim>\<open>Masterchat\<close> that the first \<^verbatim>\<open>subscribe\<close> returned, and subscribes once more. No
  polling loop gets to run in between.
\<close>

definition resubscribe_inputs :: "nat pool_input list" where
  "resubscribe_inputs =
     [Subscribe ''v'' ''c'' None, Unsubscribe ''v'', Subscribe ''v'' ''c'' None,
      OnSession 0 CallStop, Subscribe ''v'' ''c'' None]"

definition resubscribed :: "nat StreamPool" where
  "resubscribed = pool_run plain_collab resubscribe_inputs (newStreamPool None True)"

text \<open>A stream whose first request is answered with the error status \<^verbatim>\<open>PERMISSION_DENIED\<close>.\<close>

definition failing_inputs :: "nat pool_input list" where
  "failing_inputs =
     [Subscribe ''v'' ''c'' None,
      OnSession 0 (Advance 0 (tick (always (error_response PermissionDenied ''private'')) 0))]"

section \<open>Properties of the reader\<close>

lemma low7_or: "(x AND 0x7f) + 128 * (v::int) = (x AND 0x7f) OR push_bit 7 v"
proof -
  have "(x AND 0x7f) = take_bit 7 x"
    by (simp add: take_bit_eq_mask mask_eq_exp_minus_1)
  moreover have "take_bit 7 x + push_bit 7 v = take_bit 7 x OR push_bit 7 v"
    by (rule disjunctive_add) (auto simp: bit_simps)
  ultimately show ?thesis by (simp add: push_bit_eq_mult)
qed

lemma parseVariant_from_value:
  "parseVariant_from i bs r = r OR push_bit (i * 7) (varint_value bs)"
proof (induction bs arbitrary: i r)
  case Nil
  then show ?case by simp
next
  case (Cons b bs)
  have "uint (b AND 0x7f) = uint b AND 0x7f" by (simp add: uint_and)
  then show ?case using Cons.IH[of "Suc i"]
    by (simp add: low7_or add.commute or.assoc)
qed

lemma parseVariant_value: "parseVariant bs = varint_value bs"
  by (simp add: parseVariant_def parseVariant_from_value)

lemma eatVariant_loop_wf:
  "varint_wf bs \<Longrightarrow>
   eatVariant_loop (pre @ bs @ rest) (int (length pre)) = int (length pre) + int (length bs) - 1"
proof (induction bs arbitrary: pre rule: varint_wf.induct)
  case 1
  then show ?case by simp
next
  case (2 b)
  then show ?case
    by (subst eatVariant_loop.simps) (simp add: at_index_def nth_append)
next
  case (3 b v va)
  have "eatVariant_loop ((pre @ [b]) @ (v # va) @ rest) (int (length (pre @ [b])))
        = int (length (pre @ [b])) + int (length (v # va)) - 1"
    using 3 by (intro "3.IH") simp
  then show ?case using 3
    by (subst eatVariant_loop.simps) (simp add: at_index_def nth_append add.commute)
qed

lemma slice_middle:
  "slice (pre @ bs @ rest) (int (length pre)) (int (length pre) + int (length bs)) = bs"
  by (simp add: slice_def clamp_index_def min_def nat_add_distrib)

lemma varint_wf_nonempty: "varint_wf bs \<Longrightarrow> bs \<noteq> []"
  by (cases bs) auto

lemma eatVariant_wf:
  assumes "varint_wf bs"
  shows "eatVariant \<lparr>buf = pre @ bs @ rest, c = int (length pre), s = s0\<rparr>
         = (Some (varint_value bs),
            \<lparr>buf = pre @ bs @ rest, c = int (length pre) + int (length bs), s = s0\<rparr>)"
proof -
  have ne: "bs \<noteq> []" using assms by (rule varint_wf_nonempty)
  then have "\<not> isEnded \<lparr>buf = pre @ bs @ rest, c = int (length pre), s = s0\<rparr>"
    by (cases bs) (simp_all add: isEnded_def)
  then show ?thesis
    using eatVariant_loop_wf[OF assms, of pre rest] slice_middle[of pre bs rest]
    by (simp add: eatVariant_def Let_def parseVariant_value)
qed





lemma bit128_int: "bit (128::int) n \<longleftrightarrow> n = 7"
proof -
  have "bit (push_bit 7 1 :: int) n \<longleftrightarrow> n = 7"
    by (auto simp only: bit_push_bit_iff bit_1_iff possible_bit_int)
  then show ?thesis by simp
qed

lemma bit_and128: "bit ((x :: byte) AND 0x80) n \<longleftrightarrow> n = 7 \<and> bit x 7"
  by (auto simp: bit_and_iff bit128_int)

lemma byte_high_bit: "(x :: byte) AND 0x80 = 0 \<longleftrightarrow> \<not> bit x 7"
proof
  assume "x AND 0x80 = 0"
  then have "\<not> bit (x AND 0x80) 7" by simp
  then show "\<not> bit x 7" by (simp only: bit_and128) simp
next
  assume "\<not> bit x 7"
  then show "x AND 0x80 = 0"
    by (intro bit_eqI) (simp only: bit_and128, simp)
qed

lemma of_nat_low: "n < 128 \<Longrightarrow> \<not> bit (of_nat n :: byte) 7"
proof -
  assume "n < 128"
  then have "\<not> bit n 7" by (simp add: bit_iff_odd)
  then show ?thesis by (simp only: bit_of_nat_iff) simp
qed

lemma of_nat_high: "bit (of_nat (n mod 128 + 128) :: byte) 7"
proof -
  have "(n mod 128 + 128) div 128 = 1" by simp
  then have "bit (n mod 128 + 128) 7" by (simp add: bit_iff_odd)
  then show ?thesis by (simp only: bit_of_nat_iff) simp
qed

lemma low7_of_nat: "uint ((of_nat n :: byte) AND 0x7f) = int (n mod 128)"
proof -
  have e: "(0x7f::byte) = mask 7" by (simp add: mask_eq_exp_minus_1)
  have "uint (take_bit 7 (of_nat n :: byte)) = take_bit 7 (int n)"
    by (simp add: unsigned_take_bit_eq unsigned_of_nat take_bit_of_nat min_def)
  then show ?thesis unfolding e
    by (simp add: take_bit_eq_mask[symmetric] take_bit_eq_mod zmod_int)
qed


lemma varint_bytes_nonempty: "varint_bytes n \<noteq> []"
  by (subst varint_bytes.simps) simp

lemma varint_wf_Cons: "bs \<noteq> [] \<Longrightarrow> varint_wf (b # bs) = (b AND 0x80 \<noteq> 0 \<and> varint_wf bs)"
  by (cases bs) simp_all

lemma varint_bytes_wf: "varint_wf (varint_bytes n)"
proof (induction n rule: varint_bytes.induct)
  case (1 n)
  show ?case
  proof (cases "n < 128")
    case True
    then show ?thesis
      by (subst varint_bytes.simps) (simp add: byte_high_bit of_nat_low)
  next
    case False
    then have "varint_wf (varint_bytes (n div 128))" by (rule "1.IH")
    then show ?thesis using False of_nat_high[of n]
      by (subst varint_bytes.simps)
         (simp add: varint_wf_Cons varint_bytes_nonempty byte_high_bit del: of_nat_add)
  qed
qed

lemma varint_bytes_value: "varint_value (varint_bytes n) = int n"
proof (induction n rule: varint_bytes.induct)
  case (1 n)
  show ?case
  proof (cases "n < 128")
    case True
    then show ?thesis
      by (subst varint_bytes.simps) (simp add: low7_of_nat)
  next
    case False
    then have "varint_value (varint_bytes (n div 128)) = int (n div 128)" by (rule "1.IH")
    then show ?thesis using False
      by (subst varint_bytes.simps) (simp add: low7_of_nat del: of_nat_add, simp add: zmod_int zdiv_int)
  qed
qed

subsection \<open>Varint decoding\<close>

text \<open>
  Claim C6. Decoding a varint gives back exactly the integer that was encoded. For
  every well-formed varint \<open>bs\<close> (continuation flag on every byte but the last),
  wherever it lies in the buffer, \<^verbatim>\<open>eatVariant\<close> at its first byte returns the value
  made of the low 7 bits of its bytes, least-significant group first, and leaves the
  cursor right behind it; \<^verbatim>\<open>parseVariant\<close> computes that value; and the encoding of
  any natural number \<open>n\<close>, of whatever size, decodes to \<open>n\<close>.
\<close>

theorem varint_decode_exact:
  "(varint_wf bs \<longrightarrow>
      eatVariant \<lparr>buf = pre @ bs @ rest, c = int (length pre), s = s0\<rparr>
      = (Some (varint_value bs),
         \<lparr>buf = pre @ bs @ rest, c = int (length pre) + int (length bs), s = s0\<rparr>))
   \<and> parseVariant bs = varint_value bs
   \<and> varint_wf (varint_bytes n)
   \<and> varint_value (varint_bytes n) = int n
   \<and> eatVariant \<lparr>buf = pre @ varint_bytes n @ rest, c = int (length pre), s = s0\<rparr>
      = (Some (int n),
         \<lparr>buf = pre @ varint_bytes n @ rest,
          c = int (length pre) + int (length (varint_bytes n)), s = s0\<rparr>)"
  using eatVariant_wf[of bs pre rest s0] eatVariant_wf[OF varint_bytes_wf[of n], of pre rest s0]
  by (simp add: parseVariant_value varint_bytes_wf varint_bytes_value)

text \<open>
  The boundary values 0, 127, 128, 16383, 16384 and \<open>2\<^sup>6\<^sup>4 - 1\<close>, each from its bytes.
\<close>

theorem varint_decode_exact_witness:
  "varint_wf [0x00]
   \<and> eatVariant (newReader [0x00]) = (Some 0, \<lparr>buf = [0x00], c = 1, s = 0\<rparr>)
   \<and> varint_wf [0x7f]
   \<and> eatVariant (newReader [0x7f]) = (Some 127, \<lparr>buf = [0x7f], c = 1, s = 0\<rparr>)
   \<and> varint_wf [0x80, 0x01]
   \<and> eatVariant (newReader [0x80, 0x01]) = (Some 128, \<lparr>buf = [0x80, 0x01], c = 2, s = 0\<rparr>)
   \<and> varint_wf [0xff, 0x7f]
   \<and> eatVariant (newReader [0xff, 0x7f]) = (Some 16383, \<lparr>buf = [0xff, 0x7f], c = 2, s = 0\<rparr>)
   \<and> varint_wf [0x80, 0x80, 0x01]
   \<and> eatVariant (newReader [0x80, 0x80, 0x01])
       = (Some 16384, \<lparr>buf = [0x80, 0x80, 0x01], c = 3, s = 0\<rparr>)
   \<and> varint_wf [0xff, 0xff, 0xff, 0xff, 0xff, 0xff, 0xff, 0xff, 0xff, 0x01]
   \<and> eatVariant (newReader [0xff, 0xff, 0xff, 0xff, 0xff, 0xff, 0xff, 0xff, 0xff, 0x01])
       = (Some 18446744073709551615,
          \<lparr>buf = [0xff, 0xff, 0xff, 0xff, 0xff, 0xff, 0xff, 0xff, 0xff, 0x01], c = 10, s = 0\<rparr>)"
  using varint_decode_exact[of "[0x00]" "[]" "[]" 0]
        varint_decode_exact[of "[0x7f]" "[]" "[]" 0]
        varint_decode_exact[of "[0x80, 0x01]" "[]" "[]" 0]
        varint_decode_exact[of "[0xff, 0x7f]" "[]" "[]" 0]
        varint_decode_exact[of "[0x80, 0x80, 0x01]" "[]" "[]" 0]
        varint_decode_exact[of "[0xff, 0xff, 0xff, 0xff, 0xff, 0xff, 0xff, 0xff, 0xff, 0x01]" "[]" "[]" 0]
  by (simp add: newReader_def)

subsection \<open>Reads at and beyond the end of the buffer\<close>

lemma eatVariant_loop_truncated:
  "\<forall>b \<in> set bs. b AND 0x80 \<noteq> 0 \<Longrightarrow>
   eatVariant_loop (pre @ bs) (int (length pre)) = int (length pre) + int (length bs)"
proof (induction bs arbitrary: pre)
  case Nil
  then show ?case by (subst eatVariant_loop.simps) (simp add: at_index_def)
next
  case (Cons b bs)
  have "eatVariant_loop ((pre @ [b]) @ bs) (int (length (pre @ [b])))
        = int (length (pre @ [b])) + int (length bs)"
    using Cons.prems by (intro Cons.IH) simp
  then show ?case using Cons.prems
    by (subst eatVariant_loop.simps) (simp add: at_index_def nth_append add.commute)
qed

lemma slice_to_end:
  "0 \<le> i \<Longrightarrow> int (length b) \<le> e \<Longrightarrow> slice b i e = drop (nat i) b"
  by (simp add: slice_def clamp_index_def min_def)

text \<open>
  Claim C7 as stated fails: with two bytes left, \<^verbatim>\<open>eat(5)\<close> returns the two bytes (not
  \<^verbatim>\<open>null\<close>) and moves the cursor to 5, beyond the end, and \<^verbatim>\<open>eatUInt32\<close> and
  \<^verbatim>\<open>eatUInt64\<close> throw a \<^verbatim>\<open>RangeError\<close>.
\<close>

theorem eat_past_end_counterexample:
  "eat \<lparr>buf = [1, 2], c = 0, s = 0\<rparr> 5 = (Some [1, 2], \<lparr>buf = [1, 2], c = 5, s = 0\<rparr>)
   \<and> fst (eat \<lparr>buf = [1, 2], c = 0, s = 0\<rparr> 5) \<noteq> None
   \<and> eatUInt32 \<lparr>buf = [1, 2], c = 0, s = 0\<rparr> = Inl RangeError
   \<and> eatUInt64 \<lparr>buf = [1, 2], c = 0, s = 0\<rparr> = Inl RangeError"
  by (simp add: eat_def isEnded_def slice_def clamp_index_def eatUInt32_def eatUInt64_def
      readUIntLE_def)

text \<open>
  Claim C7, amended. When the cursor stands exactly at the end of the buffer
  (\<^verbatim>\<open>isEnded\<close>), every read operation (\<^verbatim>\<open>eat\<close> of any number of bytes, \<^verbatim>\<open>eatUInt32\<close>,
  \<^verbatim>\<open>eatUInt64\<close>, \<^verbatim>\<open>eatVariant\<close>) returns \<^verbatim>\<open>null\<close>, raises nothing and leaves the reader
  unchanged.
\<close>

theorem read_at_end_is_null:
  "isEnded r \<Longrightarrow>
     eat r n = (None, r) \<and> eatUInt32 r = Inr (None, r)
     \<and> eatUInt64 r = Inr (None, r) \<and> eatVariant r = (None, r)"
  by (simp add: eat_def eatUInt32_def eatUInt64_def eatVariant_def)

theorem read_at_end_is_null_witness:
  "isEnded \<lparr>buf = [1, 2], c = 2, s = 0\<rparr>
   \<and> eat \<lparr>buf = [1, 2], c = 2, s = 0\<rparr> 5 = (None, \<lparr>buf = [1, 2], c = 2, s = 0\<rparr>)
   \<and> eatUInt32 \<lparr>buf = [1, 2], c = 2, s = 0\<rparr> = Inr (None, \<lparr>buf = [1, 2], c = 2, s = 0\<rparr>)
   \<and> eatUInt64 \<lparr>buf = [1, 2], c = 2, s = 0\<rparr> = Inr (None, \<lparr>buf = [1, 2], c = 2, s = 0\<rparr>)
   \<and> eatVariant \<lparr>buf = [1, 2], c = 2, s = 0\<rparr> = (None, \<lparr>buf = [1, 2], c = 2, s = 0\<rparr>)"
proof -
  have h: "isEnded \<lparr>buf = [1, 2], c = 2, s = 0\<rparr>" by (simp add: isEnded_def)
  show ?thesis using h read_at_end_is_null[OF h, of 5] by simp
qed

text \<open>
  Claim C8 as stated fails: the truncated varint \<open>[0x80]\<close> decodes silently to 0 (and
  the cursor ends at 2, beyond the end), and after the length prefix 5 with a single
  byte left, \<^verbatim>\<open>eat(5)\<close> returns that single byte. No error is raised in either case.
\<close>

theorem malformed_input_counterexample:
  "eatVariant (newReader [0x80]) = (Some 0, \<lparr>buf = [0x80], c = 2, s = 0\<rparr>)
   \<and> eatVariant (newReader [0x05, 0x41]) = (Some 5, \<lparr>buf = [0x05, 0x41], c = 1, s = 0\<rparr>)
   \<and> eat \<lparr>buf = [0x05, 0x41], c = 1, s = 0\<rparr> 5
       = (Some [0x41], \<lparr>buf = [0x05, 0x41], c = 6, s = 0\<rparr>)"
  by (simp add: newReader_def eatVariant_def isEnded_def eatVariant_loop.simps at_index_def
      slice_def clamp_index_def parseVariant_def eat_def)

text \<open>
  Claim C8, amended. The reader raises no decode error on malformed input. A truncated
  varint (every byte from the cursor to the end of the buffer has the continuation
  flag set) is returned by \<^verbatim>\<open>eatVariant\<close> as the value of the bytes that are there,
  with the cursor one beyond the end of the buffer; \<^verbatim>\<open>eat\<close> of a length that exceeds
  the remaining bytes returns the remaining bytes and advances the cursor by the
  requested length.
\<close>

theorem malformed_input_read_silently:
  "(bs \<noteq> [] \<and> (\<forall>b \<in> set bs. b AND 0x80 \<noteq> 0) \<longrightarrow>
      eatVariant \<lparr>buf = pre @ bs, c = int (length pre), s = s0\<rparr>
      = (Some (varint_value bs),
         \<lparr>buf = pre @ bs, c = int (length pre) + int (length bs) + 1, s = s0\<rparr>))
   \<and> (0 \<le> c r \<and> remainingBytes r > 0 \<and> n > remainingBytes r \<longrightarrow>
      eat r n = (Some (drop (nat (c r)) (buf r)), r\<lparr>c := c r + n\<rparr>))"
proof (intro conjI impI)
  assume a: "bs \<noteq> [] \<and> (\<forall>b \<in> set bs. b AND 0x80 \<noteq> 0)"
  then have ne: "\<not> isEnded \<lparr>buf = pre @ bs, c = int (length pre), s = s0\<rparr>"
    by (cases bs) (simp_all add: isEnded_def)
  have l: "eatVariant_loop (pre @ bs) (int (length pre)) = int (length pre) + int (length bs)"
    using a by (intro eatVariant_loop_truncated) simp
  have "slice (pre @ bs) (int (length pre)) (int (length pre) + int (length bs) + 1) = bs"
    by (simp add: slice_to_end)
  then show "eatVariant \<lparr>buf = pre @ bs, c = int (length pre), s = s0\<rparr>
      = (Some (varint_value bs),
         \<lparr>buf = pre @ bs, c = int (length pre) + int (length bs) + 1, s = s0\<rparr>)"
    using ne l by (simp add: eatVariant_def Let_def parseVariant_value)
next
  assume a: "0 \<le> c r \<and> remainingBytes r > 0 \<and> n > remainingBytes r"
  then have "\<not> isEnded r" by (auto simp: isEnded_def remainingBytes_def)
  moreover have "slice (buf r) (c r) (c r + n) = drop (nat (c r)) (buf r)"
    using a by (intro slice_to_end) (auto simp: remainingBytes_def)
  ultimately show "eat r n = (Some (drop (nat (c r)) (buf r)), r\<lparr>c := c r + n\<rparr>)"
    by (simp add: eat_def)
qed

theorem malformed_input_read_silently_witness:
  "(0x80 :: byte) AND 0x80 \<noteq> 0 \<and> (0xff :: byte) AND 0x80 \<noteq> 0
   \<and> eatVariant \<lparr>buf = [0x08, 0x80, 0xff], c = 1, s = 0\<rparr>
      = (Some 16256, \<lparr>buf = [0x08, 0x80, 0xff], c = 4, s = 0\<rparr>)
   \<and> remainingBytes \<lparr>buf = [0x05, 0x41], c = 1, s = 0\<rparr> = 1
   \<and> eat \<lparr>buf = [0x05, 0x41], c = 1, s = 0\<rparr> 5
      = (Some [0x41], \<lparr>buf = [0x05, 0x41], c = 6, s = 0\<rparr>)"
  using malformed_input_read_silently[of "[0x80, 0xff]" "[0x08]" 0 "\<lparr>buf = [0x05, 0x41], c = 1, s = 0\<rparr>" 5]
  by (simp add: remainingBytes_def)

section \<open>Properties of the token codec\<close>

















section \<open>Properties of \<^verbatim>\<open>fetch\<close>\<close>

subsection \<open>Retries\<close>

lemma try_block_transient:
  "transient a \<Longrightarrow> try_block a rr = Inl (Thrown (transient_error a), rr)"
  by (cases a)
     (auto simp: try_block_def split: option.splits YTChatErrorStatus.splits prod.splits)

lemma try_block_fatal:
  "error_object r = Some (st, msg) \<Longrightarrow> fatal_status st \<Longrightarrow>
   try_block (Responded r) rr = Inl (Thrown (fatal_error st msg), 0)"
  by (cases st) (simp_all add: try_block_def)

lemma fetch_loop_retry:
  assumes "\<not> signal_aborted k" "transient (server k i)" "0 < rr"
  shows "fetch_loop k i m rr req =
         more_effects [Post req, Delay retryInterval] (fetch_loop k (i + 1) m (rr - 1) req)"
  using assms
  by (subst fetch_loop.simps) (simp add: post_def try_block_transient retryInterval_def)

lemma fetch_loop_exhausted:
  assumes "\<not> signal_aborted k" "transient (server k i)"
  shows "fetch_loop k i m 0 req =
         \<lparr>outcome = Inl (transient_error (server k i)), session = m,
          effects = [Post req], budget = 0\<rparr>"
  using assms
  by (subst fetch_loop.simps) (simp add: post_def try_block_transient)

lemma fetch_loop_fatal:
  assumes "\<not> signal_aborted k" "server k i = Responded r" "error_object r = Some (st, msg)"
    "fatal_status st"
  shows "fetch_loop k i m rr req =
         \<lparr>outcome = Inl (fatal_error st msg), session = m, effects = [Post req], budget = 0\<rparr>"
  using assms
  by (subst fetch_loop.simps) (simp add: post_def try_block_fatal)

lemma fetch_loop_all_transient:
  assumes "\<not> signal_aborted k"
  shows "(\<forall>j \<le> rr. transient (server k (i + j))) \<Longrightarrow>
         fetch_loop k i m rr req =
         \<lparr>outcome = Inl (transient_error (server k (i + rr))), session = m,
          effects = retries rr req @ [Post req], budget = 0\<rparr>"
proof (induction rr arbitrary: i)
  case 0
  then show ?case using fetch_loop_exhausted[OF assms, of i m req] by simp
next
  case (Suc rr)
  have t: "transient (server k i)" using Suc.prems by (metis add.right_neutral le0)
  have "\<forall>j \<le> rr. transient (server k (Suc i + j))"
    using Suc.prems by (metis add_Suc_shift Suc_le_mono)
  then have "fetch_loop k (Suc i) m rr req =
         \<lparr>outcome = Inl (transient_error (server k (Suc i + rr))), session = m,
          effects = retries rr req @ [Post req], budget = 0\<rparr>"
    by (rule Suc.IH)
  then show ?case
    using fetch_loop_retry[OF assms t, of "Suc rr" m req]
    by (simp add: more_effects_def)
qed


lemma attempts_retries: "attempts \<lparr>outcome = out, session = m, effects = retries n req @ [Post req], budget = b\<rparr> = Suc n"
  by (induction n) (simp_all add: attempts_def)

lemma fetch_loop_all_transient_attempts:
  assumes "\<not> signal_aborted k" "\<forall>j \<le> rr. transient (server k (i + j))"
  shows "attempts (fetch_loop k i m rr req) = rr + 1"
  using fetch_loop_all_transient[OF assms] by (simp add: attempts_retries)

text \<open>
  Claim C2. Within one call of \<^verbatim>\<open>fetch\<close> whose signal is not aborted: a transient
  failure (a transport-level error, or the status unavailable or internal) is retried
  after the fixed interval of 3000 ms as long as the retry budget is positive; if
  every attempt fails transiently, a loop entered with budget \<open>rr\<close> posts exactly
  \<open>rr + 1\<close> requests and then throws the error of the last attempt, so that a call,
  whose budget is 3, makes exactly 4 attempts; and an answer with status permission
  denied, not found or invalid argument sets the budget to zero and makes the call
  fail on that very attempt with the matching error, without any retry.
\<close>

theorem transient_retried_fatal_not:
  "\<not> signal_aborted k \<Longrightarrow>
   (transient (server k i) \<and> 0 < rr \<longrightarrow>
      fetch_loop k i m rr req =
      more_effects [Post req, Delay retryInterval] (fetch_loop k (i + 1) m (rr - 1) req))
   \<and> ((\<forall>j \<le> rr. transient (server k (i + j))) \<longrightarrow>
      fetch_loop k i m rr req =
        \<lparr>outcome = Inl (transient_error (server k (i + rr))), session = m,
         effects = retries rr req @ [Post req], budget = 0\<rparr>
      \<and> attempts (fetch_loop k i m rr req) = rr + 1)
   \<and> ((\<forall>j \<le> 3. transient (srv j)) \<longrightarrow>
      outcome (fetch d srv False m tok tc :: 'b fetch_result) = Inl (transient_error (srv 3))
      \<and> attempts (fetch d srv False m tok tc :: 'b fetch_result) = 4
      \<and> budget (fetch d srv False m tok tc :: 'b fetch_result) = 0)
   \<and> (server k i = Responded r \<and> error_object r = Some (st, msg) \<and> fatal_status st \<longrightarrow>
      fetch_loop k i m rr req =
        \<lparr>outcome = Inl (fatal_error st msg), session = m, effects = [Post req], budget = 0\<rparr>
      \<and> attempts (fetch_loop k i m rr req) = 1)"
proof (intro conjI impI)
  assume na: "\<not> signal_aborted k"
  {
    assume "transient (server k i) \<and> 0 < rr"
    then show "fetch_loop k i m rr req =
      more_effects [Post req, Delay retryInterval] (fetch_loop k (i + 1) m (rr - 1) req)"
      using fetch_loop_retry[OF na] by blast
  }
  {
    assume t: "\<forall>j \<le> rr. transient (server k (i + j))"
    show "fetch_loop k i m rr req =
        \<lparr>outcome = Inl (transient_error (server k (i + rr))), session = m,
         effects = retries rr req @ [Post req], budget = 0\<rparr>"
      using fetch_loop_all_transient[OF na t] .
    show "attempts (fetch_loop k i m rr req) = rr + 1"
      using fetch_loop_all_transient_attempts[OF na t] .
  }
  {
    assume f: "server k i = Responded r \<and> error_object r = Some (st, msg) \<and> fatal_status st"
    then have e: "fetch_loop k i m rr req =
        \<lparr>outcome = Inl (fatal_error st msg), session = m, effects = [Post req], budget = 0\<rparr>"
      using fetch_loop_fatal[OF na] by blast
    show "fetch_loop k i m rr req =
        \<lparr>outcome = Inl (fatal_error st msg), session = m, effects = [Post req], budget = 0\<rparr>"
      by (rule e)
    show "attempts (fetch_loop k i m rr req) = 1"
      by (simp add: e attempts_def)
  }
next
  assume t: "\<forall>j \<le> 3. transient (srv j)"
  let ?k = "\<lparr>collab = d, server = srv, signal_aborted = False, token_arg = tok,
             topChat = (case tc of None \<Rightarrow> False | Some b \<Rightarrow> b)\<rparr>"
  let ?q = "applyNewLiveStatus tok m (topChat ?k) (isLive_or_true (isLive m))"
  have f: "(fetch d srv False m tok tc :: 'b fetch_result) = fetch_loop ?k 0 m 3 ?q"
    by (simp add: fetch_def Let_def)
  have na: "\<not> signal_aborted ?k" by simp
  have t': "\<forall>j \<le> 3. transient (server ?k (0 + j))" using t by simp
  show "outcome (fetch d srv False m tok tc :: 'b fetch_result) = Inl (transient_error (srv 3))"
    unfolding f using fetch_loop_all_transient[OF na t', of m ?q] by simp
  show "attempts (fetch d srv False m tok tc :: 'b fetch_result) = 4"
    unfolding f using fetch_loop_all_transient_attempts[OF na t', of m ?q] by simp
  show "budget (fetch d srv False m tok tc :: 'b fetch_result) = 0"
    unfolding f using fetch_loop_all_transient[OF na t', of m ?q] by simp
qed


text \<open>
  A call that only ever gets network errors makes 4 attempts; a permission-denied
  answer ends a loop that still has 2 retries left.
\<close>

theorem transient_retried_fatal_not_witness:
  "\<not> signal_aborted (plain_call (\<lambda>i. if i = 0 then PostFailed ''FetchError''
                                      else error_response PermissionDenied ''private''))
   \<and> outcome (fetch plain_collab (\<lambda>i. PostFailed ''FetchError'') False
                (newMasterchat ''v'' ''c'' None 0) None None)
       = Inl (PostError ''FetchError'')
   \<and> attempts (fetch plain_collab (\<lambda>i. PostFailed ''FetchError'') False
                (newMasterchat ''v'' ''c'' None 0) None None) = 4
   \<and> fetch_loop (plain_call (\<lambda>i. if i = 0 then PostFailed ''FetchError''
                                 else error_response PermissionDenied ''private''))
         1 (newMasterchat ''v'' ''c'' None 0) 2
         \<lparr>requestUrl = EP_GLC, requestBody = Lrc ''c'' ''v'' False\<rparr>
       = \<lparr>outcome = Inl (NoPermissionError ''private''),
          session = newMasterchat ''v'' ''c'' None 0,
          effects = [Post \<lparr>requestUrl = EP_GLC, requestBody = Lrc ''c'' ''v'' False\<rparr>],
          budget = 0\<rparr>"
  using transient_retried_fatal_not
    [where k = "plain_call (\<lambda>i. if i = 0 then PostFailed ''FetchError''
                                 else error_response PermissionDenied ''private'')"
       and i = 1 and rr = 2 and m = "newMasterchat ''v'' ''c'' None 0"
       and req = "\<lparr>requestUrl = EP_GLC, requestBody = Lrc ''c'' ''v'' False\<rparr>"
       and srv = "\<lambda>i. PostFailed ''FetchError''" and d = plain_collab
       and tok = None and tc = None
       and r = "\<lparr>error_object = Some (PermissionDenied, ''private''),
                 continuationContents = None, contents_text = None\<rparr>"
       and st = PermissionDenied and msg = "''private''"]
  by (simp add: plain_call_def error_response_def)

subsection \<open>The switch to the replay endpoint\<close>

lemma after_try_disabled:
  "chat_disabled r reason \<Longrightarrow>
   after_try d live r = (if live = None then SwitchToReplay else Throw (DisabledChatError reason))"
  by (simp add: chat_disabled_def after_try_def)

lemma try_block_no_error: "error_object r = None \<Longrightarrow> try_block (Responded r) rr = Inr r"
  by (simp add: try_block_def)

lemma fetch_loop_switch:
  assumes "\<not> signal_aborted k" "server k i = Responded r" "chat_disabled r reason"
    "isLive m = None"
  shows "fetch_loop k i m rr req =
         more_effects [Post req, LogSwitched]
           (fetch_loop k (i + 1) (m\<lparr>isLive := Some False\<rparr>) rr
              (applyNewLiveStatus (token_arg k) m (topChat k) False))"
proof -
  have "error_object r = None" using assms(3) by (simp add: chat_disabled_def)
  then have "try_block (post k i) rr = Inr r"
    using assms(1,2) by (simp add: post_def try_block_no_error)
  then show ?thesis
    using assms(3,4) by (subst fetch_loop.simps) (simp add: after_try_disabled)
qed

lemma fetch_loop_disabled:
  assumes "\<not> signal_aborted k" "server k i = Responded r" "chat_disabled r reason"
    "isLive m \<noteq> None"
  shows "fetch_loop k i m rr req =
         \<lparr>outcome = Inl (DisabledChatError reason), session = m, effects = [Post req],
          budget = rr\<rparr>"
proof -
  have "error_object r = None" using assms(3) by (simp add: chat_disabled_def)
  then have "try_block (post k i) rr = Inr r"
    using assms(1,2) by (simp add: post_def try_block_no_error)
  moreover obtain b where "isLive m = Some b" using assms(4) by auto
  ultimately show ?thesis
    using assms(3) by (subst fetch_loop.simps) (simp add: after_try_disabled)
qed

lemma replay_request:
  "requestUrl (applyNewLiveStatus tok m tc False) = EP_GLCR
   \<and> requestBody (applyNewLiveStatus tok m tc False)
       = (case tok of Some t \<Rightarrow> GivenToken t | None \<Rightarrow> Rtc (channelId m) (videoId m) tc)"
  by (simp add: applyNewLiveStatus_def)

lemma switches_more_effects:
  "switches (more_effects es r) = length (filter (\<lambda>e. e = LogSwitched) es) + switches r"
  by (simp add: switches_def more_effects_def)

lemma session_more_effects: "session (more_effects es r) = session r"
  by (simp add: more_effects_def)

lemma after_try_switch_only_unknown:
  "after_try d live r = SwitchToReplay \<Longrightarrow> live = None"
  by (auto simp: after_try_def split: option.splits if_splits)

lemma fetch_loop_mode:
  "(session (fetch_loop k i m rr req) = m \<and> switches (fetch_loop k i m rr req) = 0)
   \<or> (isLive m = None \<and> session (fetch_loop k i m rr req) = m\<lparr>isLive := Some False\<rparr>
       \<and> switches (fetch_loop k i m rr req) = 1)"
proof (induction k i m rr req rule: fetch_loop.induct)
  case (1 k i m rr req)
  show ?case
  proof (cases "try_block (post k i) rr")
    case (Inl p)
    obtain t rr' where p: "p = (t, rr')" by (cases p)
    show ?thesis
    proof (cases t)
      case AbortedRequest
      then show ?thesis using Inl p
        by (subst (1 2 3 4) fetch_loop.simps) (simp add: switches_def)
    next
      case (Thrown err)
      show ?thesis
      proof (cases "rr' > 0")
        case True
        have e: "fetch_loop k i m rr req =
              more_effects [Post req, Delay retryInterval] (fetch_loop k (i + 1) m (rr' - 1) req)"
          using Inl p Thrown True by (subst fetch_loop.simps) simp
        show ?thesis
          using "1.IH"(1)[OF Inl p[symmetric] Thrown True]
          by (simp add: e switches_more_effects session_more_effects)
      next
        case False
        then show ?thesis using Inl p Thrown
          by (subst (1 2 3 4) fetch_loop.simps) (simp add: switches_def)
      qed
    qed
  next
    case (Inr r)
    show ?thesis
    proof (cases "after_try (collab k) (isLive m) r")
      case (Return res)
      then show ?thesis using Inr
        by (subst (1 2 3 4) fetch_loop.simps) (simp add: switches_def)
    next
      case (Throw err)
      then show ?thesis using Inr
        by (subst (1 2 3 4) fetch_loop.simps) (simp add: switches_def)
    next
      case SwitchToReplay
      have u: "isLive m = None" using SwitchToReplay by (rule after_try_switch_only_unknown)
      let ?R = "fetch_loop k (i + 1) (m\<lparr>isLive := Some False\<rparr>) rr
                   (applyNewLiveStatus (token_arg k) m (topChat k) False)"
      have e: "fetch_loop k i m rr req = more_effects [Post req, LogSwitched] ?R"
        using Inr SwitchToReplay by (subst fetch_loop.simps) simp
      have "session ?R = m\<lparr>isLive := Some False\<rparr> \<and> switches ?R = 0"
        using "1.IH"(2)[OF Inr SwitchToReplay] by simp
      then show ?thesis
        using u by (simp add: e switches_more_effects session_more_effects)
    qed
  qed
qed


lemma fetch_as_loop:
  "fetch d srv ab m tok tc =
   fetch_loop \<lparr>collab = d, server = srv, signal_aborted = ab, token_arg = tok,
                topChat = (case tc of None \<Rightarrow> False | Some b \<Rightarrow> b)\<rparr> 0 m 3
     (applyNewLiveStatus tok m (case tc of None \<Rightarrow> False | Some b \<Rightarrow> b)
        (isLive_or_true (isLive m)))"
  by (simp add: fetch_def Let_def)

lemma fetch_mode:
  "(session (fetch d srv ab m tok tc) = m \<and> switches (fetch d srv ab m tok tc) = 0)
   \<or> (isLive m = None \<and> session (fetch d srv ab m tok tc) = m\<lparr>isLive := Some False\<rparr>
       \<and> switches (fetch d srv ab m tok tc) = 1)"
  unfolding fetch_as_loop by (rule fetch_loop_mode)

lemma fetch_calls_switches:
  "fst (fetch_calls d ps m) \<le> 1 \<and> (isLive m \<noteq> None \<longrightarrow> fst (fetch_calls d ps m) = 0)"
proof (induction ps arbitrary: m)
  case Nil
  then show ?case by simp
next
  case (Cons p ps)
  obtain srv ab tok tc where p: "p = (srv, ab, tok, tc)" by (cases p)
  let ?r = "fetch d srv ab m tok tc"
  have f: "fst (fetch_calls d (p # ps) m) = switches ?r + fst (fetch_calls d ps (session ?r))"
    by (simp add: p Let_def split: prod.splits)
  from fetch_mode[of d srv ab m tok tc] show ?case
  proof
    assume a: "session ?r = m \<and> switches ?r = 0"
    then show ?thesis using Cons.IH[of m] by (simp add: f)
  next
    assume a: "isLive m = None \<and> session ?r = m\<lparr>isLive := Some False\<rparr> \<and> switches ?r = 1"
    then have "fst (fetch_calls d ps (session ?r)) = 0"
      using Cons.IH[of "m\<lparr>isLive := Some False\<rparr>"] by simp
    then show ?thesis using a by (simp add: f)
  qed
qed

text \<open>
  Claim C3. Within a call whose signal is not aborted, let an attempt be answered
  without error and without \<^verbatim>\<open>continuationContents\<close>, the contents text saying that chat
  is disabled. If \<^verbatim>\<open>isLive\<close> is \<^verbatim>\<open>undefined\<close>, the loop logs the switch, sets \<^verbatim>\<open>isLive\<close>
  to \<^verbatim>\<open>false\<close>, rebuilds the request for the replay endpoint and goes round again with
  \<^verbatim>\<open>retryRemaining\<close> unchanged; the call then ends with \<^verbatim>\<open>isLive = false\<close> and exactly one
  switch. If \<^verbatim>\<open>isLive\<close> is already \<^verbatim>\<open>true\<close> or \<^verbatim>\<open>false\<close>, the call throws
  \<^verbatim>\<open>DisabledChatError\<close> on that attempt, the session unchanged. Over any sequence of
  polls of one session the switch happens at most once, and never when the session
  starts with a committed mode.
\<close>

theorem disabled_chat_fallback_once:
  "\<not> signal_aborted k \<Longrightarrow> server k i = Responded r \<Longrightarrow> chat_disabled r reason \<Longrightarrow>
   (isLive m = None \<longrightarrow>
      fetch_loop k i m rr req =
        more_effects [Post req, LogSwitched]
          (fetch_loop k (i + 1) (m\<lparr>isLive := Some False\<rparr>) rr
             (applyNewLiveStatus (token_arg k) m (topChat k) False))
      \<and> requestUrl (applyNewLiveStatus (token_arg k) m (topChat k) False) = EP_GLCR
      \<and> isLive (session (fetch_loop k i m rr req)) = Some False
      \<and> switches (fetch_loop k i m rr req) = 1)
   \<and> (isLive m \<noteq> None \<longrightarrow>
      fetch_loop k i m rr req =
        \<lparr>outcome = Inl (DisabledChatError reason), session = m, effects = [Post req],
         budget = rr\<rparr>)
   \<and> fst (fetch_calls d ps m0) \<le> 1
   \<and> (isLive m0 \<noteq> None \<longrightarrow> fst (fetch_calls d ps m0) = 0)"
proof (intro conjI impI)
  assume h: "\<not> signal_aborted k" "server k i = Responded r" "chat_disabled r reason"
  {
    assume u: "isLive m = None"
    let ?q = "applyNewLiveStatus (token_arg k) m (topChat k) False"
    let ?R = "fetch_loop k (i + 1) (m\<lparr>isLive := Some False\<rparr>) rr ?q"
    show e: "fetch_loop k i m rr req = more_effects [Post req, LogSwitched] ?R"
      using h u by (rule fetch_loop_switch)
    show "requestUrl ?q = EP_GLCR" by (simp add: replay_request)
    have R: "session ?R = m\<lparr>isLive := Some False\<rparr> \<and> switches ?R = 0"
      using fetch_loop_mode[of k "i + 1" "m\<lparr>isLive := Some False\<rparr>" rr ?q] by simp
    show "isLive (session (fetch_loop k i m rr req)) = Some False"
      using R by (simp add: e session_more_effects)
    show "switches (fetch_loop k i m rr req) = 1"
      using R by (simp add: e switches_more_effects)
  }
  {
    assume "isLive m \<noteq> None"
    with h show "fetch_loop k i m rr req =
        \<lparr>outcome = Inl (DisabledChatError reason), session = m, effects = [Post req],
         budget = rr\<rparr>"
      by (rule fetch_loop_disabled)
  }
next
  show "fst (fetch_calls d ps m0) \<le> 1" using fetch_calls_switches[of d ps m0] by simp
next
  assume "isLive m0 \<noteq> None"
  then show "fst (fetch_calls d ps m0) = 0" using fetch_calls_switches[of d ps m0] by simp
qed

text \<open>
  A session in unknown mode is told on its first, live poll that chat is disabled,
  switches to the replay endpoint and succeeds there; a session in live mode gets
  \<^verbatim>\<open>DisabledChatError\<close> for the same answer; a session in replay mode never switches.
\<close>

theorem disabled_chat_fallback_once_witness:
  "\<not> signal_aborted
       (plain_call (\<lambda>i. if i = 0 then text_response ''Chat is disabled for this live stream.''
                         else chat_response (Some \<lparr>token = ''t1'', timeoutMs = 5000\<rparr>) [7]))
   \<and> chat_disabled
       \<lparr>error_object = None, continuationContents = (None :: nat ContinuationContents option),
        contents_text = Some ''Chat is disabled for this live stream.''\<rparr>
       ''Chat is disabled for this live stream.''
   \<and> isLive (newMasterchat ''v'' ''c'' None 0) = None
   \<and> fetch plain_collab
       (\<lambda>i. if i = 0 then text_response ''Chat is disabled for this live stream.''
             else chat_response (Some \<lparr>token = ''t1'', timeoutMs = 5000\<rparr>) [7])
       False (newMasterchat ''v'' ''c'' None 0) None None
     = \<lparr>outcome = Inr \<lparr>actions = [7],
                       continuation = Some \<lparr>token = ''t1'', timeoutMs = 5000\<rparr>, error = None\<rparr>,
        session = (newMasterchat ''v'' ''c'' None 0)\<lparr>isLive := Some False\<rparr>,
        effects = [Post \<lparr>requestUrl = EP_GLC, requestBody = Lrc ''c'' ''v'' False\<rparr>, LogSwitched,
                   Post \<lparr>requestUrl = EP_GLCR, requestBody = Rtc ''c'' ''v'' False\<rparr>],
        budget = 3\<rparr>
   \<and> isLive (newMasterchat ''v'' ''c'' (Some Live) 0) \<noteq> None
   \<and> fetch plain_collab
       (\<lambda>i. if i = 0 then text_response ''Chat is disabled for this live stream.''
             else chat_response (Some \<lparr>token = ''t1'', timeoutMs = 5000\<rparr>) [7])
       False (newMasterchat ''v'' ''c'' (Some Live) 0) None None
     = \<lparr>outcome = Inl (DisabledChatError ''Chat is disabled for this live stream.''),
        session = newMasterchat ''v'' ''c'' (Some Live) 0,
        effects = [Post \<lparr>requestUrl = EP_GLC, requestBody = Lrc ''c'' ''v'' False\<rparr>],
        budget = 3\<rparr>
   \<and> fst (fetch_calls plain_collab
            [((\<lambda>i. text_response ''Chat is disabled for this live stream.''), False, None, None)]
            (newMasterchat ''v'' ''c'' (Some Replay) 0)) = 0"
proof -
  let ?srv = "\<lambda>i. if i = 0 then text_response ''Chat is disabled for this live stream.''
             else chat_response (Some \<lparr>token = ''t1'', timeoutMs = 5000\<rparr>) [7]"
  let ?r = "\<lparr>error_object = None, continuationContents = (None :: nat ContinuationContents option),
        contents_text = Some ''Chat is disabled for this live stream.''\<rparr>"
  let ?live = "newMasterchat ''v'' ''c'' (Some Live) 0"
  let ?q = "\<lparr>requestUrl = EP_GLC, requestBody = Lrc ''c'' ''v'' False\<rparr>"
  have a: "\<not> signal_aborted (plain_call ?srv)" by (simp add: plain_call_def)
  have b: "server (plain_call ?srv) 0 = Responded ?r"
    by (simp add: plain_call_def text_response_def)
  have c: "chat_disabled ?r ''Chat is disabled for this live stream.''"
    by (simp add: chat_disabled_def)
  have l: "isLive ?live \<noteq> None" by (simp add: newMasterchat_def)
  have f: "fetch plain_collab ?srv False ?live None None = fetch_loop (plain_call ?srv) 0 ?live 3 ?q"
    by (simp add: fetch_as_loop plain_call_def applyNewLiveStatus_def newMasterchat_def
        isLive_or_true_def)
  have "fetch_loop (plain_call ?srv) 0 ?live 3 ?q
        = \<lparr>outcome = Inl (DisabledChatError ''Chat is disabled for this live stream.''),
           session = ?live, effects = [Post ?q], budget = 3\<rparr>"
    using disabled_chat_fallback_once[OF a b c, of ?live 3 ?q] l by blast
  moreover have "fst (fetch_calls plain_collab
            [((\<lambda>i. text_response ''Chat is disabled for this live stream.''), False, None, None)]
            (newMasterchat ''v'' ''c'' (Some Replay) 0)) = 0"
    using disabled_chat_fallback_once[OF a b c, where ?m0.0 = "newMasterchat ''v'' ''c'' (Some Replay) 0"
          and d = plain_collab
          and ps = "[((\<lambda>i. text_response ''Chat is disabled for this live stream.''), False, None, None)]"]
    by (simp add: newMasterchat_def)
  moreover have "fetch plain_collab ?srv False (newMasterchat ''v'' ''c'' None 0) None None
     = \<lparr>outcome = Inr \<lparr>actions = [7],
                       continuation = Some \<lparr>token = ''t1'', timeoutMs = 5000\<rparr>, error = None\<rparr>,
        session = (newMasterchat ''v'' ''c'' None 0)\<lparr>isLive := Some False\<rparr>,
        effects = [Post \<lparr>requestUrl = EP_GLC, requestBody = Lrc ''c'' ''v'' False\<rparr>, LogSwitched,
                   Post \<lparr>requestUrl = EP_GLCR, requestBody = Rtc ''c'' ''v'' False\<rparr>],
        budget = 3\<rparr>"
    by (simp add: fetch_def fetch_loop.simps post_def try_block_def after_try_def
      text_response_def chat_response_def plain_collab_def newMasterchat_def
      applyNewLiveStatus_def isLive_or_true_def more_effects_def List.map_filter_simps)
  ultimately show ?thesis
    using a c l by (simp only: f simp_thms) (simp add: newMasterchat_def)
qed

section \<open>Properties of the polling loop\<close>

subsection \<open>At most one polling loop\<close>

lemma fetch_session_fields:
  "listener (session (fetch d srv ab m tok tc)) = listener m
   \<and> listenerAbortion (session (fetch d srv ab m tok tc)) = listenerAbortion m
   \<and> videoId (session (fetch d srv ab m tok tc)) = videoId m
   \<and> channelId (session (fetch d srv ab m tok tc)) = channelId m"
  using fetch_mode[of d srv ab m tok tc] by auto

lemma consistent_newWorld: "consistent (newWorld vid cid mode el cl)"
  by (simp add: consistent_def newWorld_def newMasterchat_def)

lemma consistent_listen: "consistent w \<Longrightarrow> consistent (snd (listen opts w))"
  by (auto simp: consistent_def listen_def Let_def nth_append split: option.splits)

lemma consistent_stop: "consistent w \<Longrightarrow> consistent (stop w)"
  by (auto simp: consistent_def stop_def split: option.splits)

lemma consistent_one_loop:
  assumes "consistent w" "k < length (loops w)"
  shows "k = 0" "length (loops w) = 1" "listener (mc w) = Some (promise (loops w ! 0))"
    "signal (loops w ! 0) = listenerAbortion (mc w)"
    "promise (loops w ! 0) < length (promises w)"
    "listenerAbortion (mc w) < length (signals w)"
  using assms by (auto simp: consistent_def split: option.splits)

lemma consistent_settle:
  assumes "consistent w" "length (loops w) = 1"
  shows "consistent (settle 0 out w)" "loops (settle 0 out w) = []" "stopped (settle 0 out w)"
  using assms by (auto simp: consistent_def settle_def stopped_def split: option.splits)

lemma consistent_set_loop:
  assumes "consistent w" "length (loops w) = 1" "promise l = promise (loops w ! 0)"
    "signal l = signal (loops w ! 0)"
  shows "consistent (set_loop 0 l w)"
  using assms
  by (cases "loops w") (auto simp: consistent_def set_loop_def split: option.splits)

lemma consistent_env:
  assumes "consistent w" "listener m = listener (mc w)"
    "listenerAbortion m = listenerAbortion (mc w)"
  shows "consistent (w\<lparr>mc := m, clock := t\<rparr>)" "consistent (w\<lparr>clock := t\<rparr>)"
    "consistent (w\<lparr>mc := m, clock := t, emitted := es\<rparr>)"
  using assms by (auto simp: consistent_def split: option.splits)

lemma consistent_advance: "consistent w \<Longrightarrow> consistent (advance d k x w)"
proof (cases "k < length (loops w)")
  case False
  assume "consistent w"
  with False show ?thesis by (simp add: advance_def)
next
  case True
  assume c: "consistent w"
  note o = consistent_one_loop[OF c True]
  let ?l = "loops w ! 0"
  show ?thesis
  proof (cases "pc ?l")
    case AwaitFetch
    let ?r = "fetch d (answers x) (is_aborted w (listenerAbortion (mc w))) (mc w) (loop_token ?l) None"
    let ?w1 = "w\<lparr>mc := session ?r, clock := clock w + int (elapsed x)\<rparr>"
    have c1: "consistent ?w1"
      using c fetch_session_fields[of d "answers x" _ "mc w" "loop_token ?l" None]
      by (intro consistent_env) auto
    have c2: "consistent (?w1\<lparr>emitted := es\<rparr>)" for es
      using c1 by (auto simp: consistent_def split: option.splits)
    have l1: "length (loops ?w1) = 1" using o by simp
    show ?thesis
    proof (cases "outcome ?r")
      case (Inl err)
      then show ?thesis using True o(1) AwaitFetch consistent_settle(1)[OF c1 l1]
        by (simp add: advance_def delay_rejects_def Let_def)
    next
      case (Inr res)
      then show ?thesis using True o(1,2) AwaitFetch c1 c2
        by (auto simp: advance_def delay_rejects_def Let_def intro!: consistent_set_loop)
    qed
  next
    case (AfterFetch res startMs)
    let ?w1 = "w\<lparr>clock := clock w + int (elapsed x)\<rparr>"
    have c1: "consistent ?w1" using c by (intro consistent_env) auto
    have l1: "length (loops ?w1) = 1" using o by simp
    show ?thesis
    proof (cases "continuation res")
      case None
      then show ?thesis using True o(1) AfterFetch consistent_settle(1)[OF c o(2)]
        by (simp add: advance_def delay_rejects_def Let_def)
    next
      case (Some cont)
      then show ?thesis using True o(1,2) AfterFetch c1 consistent_settle(1)[OF c1 l1]
        by (auto simp: advance_def delay_rejects_def Let_def split: option.splits intro!: consistent_set_loop)
    qed
  next
    case (AwaitDelay t)
    have c1: "consistent (w\<lparr>clock := clock w + t\<rparr>)" using c by (intro consistent_env) auto
    show ?thesis using True o(1,2) AwaitDelay c1 consistent_settle(1)[OF c o(2)]
      by (auto simp: advance_def delay_rejects_def Let_def intro!: consistent_set_loop)
  qed
qed

lemma consistent_step: "consistent w \<Longrightarrow> consistent (step d i w)"
  by (cases i) (simp_all add: consistent_listen consistent_stop consistent_advance)

lemma consistent_run: "consistent w \<Longrightarrow> consistent (run d ins w)"
  by (induction ins arbitrary: w) (simp_all add: consistent_step)



subsection \<open>Stopping\<close>

lemma fetch_aborted:
  "outcome (fetch d srv True m tok tc) = Inl AbortError \<and> session (fetch d srv True m tok tc) = m"
  by (simp add: fetch_def Let_def fetch_loop.simps post_def try_block_def)

lemma stopping_stop:
  assumes "consistent w" "listener (mc w) = Some p"
  shows "stopping p (stop w)" "emitted (stop w) = emitted w @ [End]"
  using assms
  by (auto simp: stopping_def consistent_def stop_def is_aborted_def split: option.splits)

lemma stopping_stop_again:
  assumes "stopping p w"
  shows "stopping p (stop w)"
    "\<exists>evs. emitted (stop w) = emitted w @ evs \<and> list_all (\<lambda>e. \<not> is_error_event e) evs"
  using assms
  by (auto simp: stopping_def consistent_def stop_def is_aborted_def split: option.splits)

lemma stopping_settle:
  assumes "stopping p w" "length (loops w) = 1" "out = None \<or> out = Some AbortError"
  shows "stopping p (settle 0 out w)"
    "\<exists>evs. emitted (settle 0 out w) = emitted w @ evs \<and> list_all (\<lambda>e. \<not> is_error_event e) evs"
    "stopped (settle 0 out w)"
  using assms
  by (auto simp: stopping_def consistent_def settle_def stopped_def split: option.splits)

lemma stopping_clock:
  "stopping p w \<Longrightarrow> stopping p (w\<lparr>clock := t\<rparr>)"
  by (auto simp: stopping_def consistent_def is_aborted_def split: option.splits)

lemma stopping_set_loop:
  assumes "stopping p w" "length (loops w) = 1" "promise l = promise (loops w ! 0)"
    "signal l = signal (loops w ! 0)"
  shows "stopping p (set_loop 0 l w)"
  using assms
  by (cases "loops w")
     (auto simp: stopping_def consistent_def set_loop_def is_aborted_def split: option.splits)

lemma stopping_one_loop:
  assumes "stopping p w" "k < length (loops w)"
  shows "k = 0" "length (loops w) = 1" "is_aborted w (listenerAbortion (mc w))"
    "is_aborted w (signal (loops w ! 0))"
  using assms by (auto simp: stopping_def consistent_def split: option.splits)

lemma stopping_advance:
  assumes s: "stopping p w"
  shows "stopping p (advance d k x w)
     \<and> (\<exists>evs. emitted (advance d k x w) = emitted w @ evs
            \<and> list_all (\<lambda>e. \<not> is_error_event e) evs)
     \<and> (k < length (loops w) \<and> (\<forall>res t. pc (loops w ! k) \<noteq> AfterFetch res t)
          \<longrightarrow> stopped (advance d k x w))
     \<and> (k < length (loops w) \<and> \<not> stopped (advance d k x w)
          \<longrightarrow> pc (loops (advance d k x w) ! 0) = AwaitFetch)"
proof (cases "k < length (loops w)")
  case False
  with s show ?thesis by (simp add: advance_def)
next
  case True
  note o = stopping_one_loop[OF s True]
  let ?l = "loops w ! 0"
  show ?thesis
  proof (cases "pc ?l")
    case AwaitFetch
    let ?w1 = "w\<lparr>mc := mc w, clock := clock w + int (elapsed x)\<rparr>"
    have w1: "?w1 = w\<lparr>clock := clock w + int (elapsed x)\<rparr>" by simp
    have s1: "stopping p ?w1" unfolding w1 using s by (rule stopping_clock)
    have l1: "length (loops ?w1) = 1" using o by simp
    have a: "advance d k x w = settle 0 (Some AbortError) ?w1"
      using True o(1,3) AwaitFetch
      by (simp add: advance_def delay_rejects_def Let_def fetch_aborted)
    show ?thesis
      unfolding a using stopping_settle[OF s1 l1, of "Some AbortError"] by simp
  next
    case (AfterFetch res startMs)
    let ?w1 = "w\<lparr>clock := clock w + int (elapsed x)\<rparr>"
    have s1: "stopping p ?w1" using s by (rule stopping_clock)
    have l1: "length (loops ?w1) = 1" using o by simp
    show ?thesis
    proof (cases "continuation res")
      case None
      then have a: "advance d k x w = settle 0 None w"
        using True o(1) AfterFetch by (simp add: advance_def delay_rejects_def Let_def)
      show ?thesis
        unfolding a using stopping_settle[OF s o(2), of None] True o(1) AfterFetch by simp
    next
      case (Some cont)
      show ?thesis
      proof (cases "drift_wait (isLive (mc w)) (timeoutMs cont) startMs (clock ?w1)")
        case None
        let ?l2 = "?l\<lparr>treatedFirstResponse := True, loop_token := Some (token cont),
                    pc := AwaitFetch\<rparr>"
        have a: "advance d k x w = set_loop 0 ?l2 ?w1"
          using True o(1) AfterFetch Some None by (simp add: advance_def delay_rejects_def Let_def)
        have "stopping p (set_loop 0 ?l2 ?w1)"
          using s1 l1 by (rule stopping_set_loop) simp_all
        moreover have "emitted (set_loop 0 ?l2 ?w1) = emitted w @ []"
          by (simp add: set_loop_def)
        moreover have "pc (loops (set_loop 0 ?l2 ?w1) ! 0) = AwaitFetch"
          using o(2) by (cases "loops w") (simp_all add: set_loop_def)
        ultimately show ?thesis
          unfolding a using True o(1) AfterFetch by auto
      next
        case (Some t)
        have a: "advance d k x w = settle 0 (Some AbortError) ?w1"
          using True o(1,4) AfterFetch \<open>continuation res = Some cont\<close> Some
          by (simp add: advance_def delay_rejects_def Let_def)
        show ?thesis
          unfolding a using stopping_settle[OF s1 l1, of "Some AbortError"] True o(1) AfterFetch
          by simp
      qed
    qed
  next
    case (AwaitDelay t)
    have a: "advance d k x w = settle 0 (Some AbortError) w"
      using True o(1,4) AwaitDelay by (simp add: advance_def delay_rejects_def Let_def)
    show ?thesis
      unfolding a using stopping_settle[OF s o(2), of "Some AbortError"] by simp
  qed
qed

lemma stopping_loops: "stopping p w \<Longrightarrow> stopped w \<longleftrightarrow> loops w = []"
  by (auto simp: stopping_def consistent_def stopped_def split: option.splits)

lemma stopping_two_advances:
  assumes s: "stopping p w"
  shows "stopped (advance d 0 x2 (advance d 0 x1 w))"
proof -
  let ?w1 = "advance d 0 x1 w"
  have s1: "stopping p ?w1" using stopping_advance[OF s, of d 0 x1] by simp
  show ?thesis
  proof (cases "stopped ?w1")
    case True
    then have "loops ?w1 = []" using stopping_loops[OF s1] by simp
    then have "advance d 0 x2 ?w1 = ?w1" by (simp add: advance_def)
    then show ?thesis using True by simp
  next
    case False
    then have n1: "loops ?w1 \<noteq> []" using stopping_loops[OF s1] by simp
    have "loops w \<noteq> []"
    proof
      assume "loops w = []"
      then have "?w1 = w" by (simp add: advance_def)
      then show False using n1 \<open>loops w = []\<close> by simp
    qed
    then have k: "0 < length (loops w)" by simp
    have p1: "pc (loops ?w1 ! 0) = AwaitFetch"
      using stopping_advance[OF s, of d 0 x1] k False by blast
    have k1: "0 < length (loops ?w1)" using n1 by simp
    have "\<forall>res t. pc (loops ?w1 ! 0) \<noteq> AfterFetch res t" using p1 by simp
    then show ?thesis using stopping_advance[OF s1, of d 0 x2] k1 by blast
  qed
qed

lemma stopping_step:
  assumes "stopping p w" "\<not> is_listen i"
  shows "stopping p (step d i w)
     \<and> (\<exists>evs. emitted (step d i w) = emitted w @ evs
            \<and> list_all (\<lambda>e. \<not> is_error_event e) evs)"
proof (cases i)
  case (CallListen opts)
  then show ?thesis using assms by simp
next
  case CallStop
  then show ?thesis using stopping_stop_again[OF assms(1)] by simp
next
  case (Advance k x)
  then show ?thesis using stopping_advance[OF assms(1), of d k x] by simp
qed

lemma stopping_run:
  assumes "stopping p w" "list_all (\<lambda>i. \<not> is_listen i) js"
  shows "stopping p (run d js w)
     \<and> (\<exists>evs. emitted (run d js w) = emitted w @ evs
            \<and> list_all (\<lambda>e. \<not> is_error_event e) evs)"
  using assms
proof (induction js arbitrary: w)
  case Nil
  then show ?case by simp
next
  case (Cons i js)
  from Cons.prems have ni: "\<not> is_listen i" and nj: "list_all (\<lambda>i. \<not> is_listen i) js"
    by simp_all
  from stopping_step[OF Cons.prems(1) ni, of d]
  obtain e1 where s1: "stopping p (step d i w)"
    and e1: "emitted (step d i w) = emitted w @ e1" "list_all (\<lambda>e. \<not> is_error_event e) e1"
    by blast
  from Cons.IH[OF s1 nj]
  obtain e2 where s2: "stopping p (run d js (step d i w))"
    and e2: "emitted (run d js (step d i w)) = emitted (step d i w) @ e2"
      "list_all (\<lambda>e. \<not> is_error_event e) e2"
    by blast
  have "emitted (run d (i # js) w) = emitted w @ (e1 @ e2)"
    using e1 e2 by simp
  moreover have "list_all (\<lambda>e. \<not> is_error_event e) (e1 @ e2)"
    using e1 e2 by simp
  ultimately show ?case using s2 by (simp del: append_assoc)
qed

lemma stopping_fulfilled:
  "stopping p w \<Longrightarrow> stopped w \<Longrightarrow> promises w ! p = Some Fulfilled"
  by (auto simp: stopping_def stopped_def)

text \<open>
  Claim C9, amended. Let \<^verbatim>\<open>stop\<close> be called in a reachable state with a listener \<open>p\<close>
  (a polling loop is running, wherever it is suspended). Then \<^verbatim>\<open>stop\<close> emits \<^verbatim>\<open>end\<close>;
  whatever happens afterwards short of a new call of \<^verbatim>\<open>listen\<close>, no \<^verbatim>\<open>error\<close> event is
  emitted; the session is stopped once the loop has gone on twice; and when it is
  stopped, the \<^verbatim>\<open>ChatListener\<close> promise \<open>p\<close> is fulfilled: the \<^verbatim>\<open>AbortError\<close> is swallowed by
  the \<^verbatim>\<open>catch\<close> reaction, and awaiting the listener does not bring it back.
\<close>

theorem stop_ends_without_error:
  "w = run d ins (newWorld vid cid mode el cl) \<Longrightarrow> listener (mc w) = Some p \<Longrightarrow>
   list_all (\<lambda>i. \<not> is_listen i) js \<Longrightarrow>
   emitted (stop w) = emitted w @ [End]
   \<and> take (length (emitted w)) (emitted (run d js (stop w))) = emitted w
   \<and> list_all (\<lambda>e. \<not> is_error_event e)
        (drop (length (emitted w)) (emitted (run d js (stop w))))
   \<and> stopped (advance d 0 x2 (advance d 0 x1 (stop w)))
   \<and> (stopped (run d js (stop w)) \<longrightarrow> promises (run d js (stop w)) ! p = Some Fulfilled)"
proof -
  assume w: "w = run d ins (newWorld vid cid mode el cl)"
    and p: "listener (mc w) = Some p"
    and js: "list_all (\<lambda>i. \<not> is_listen i) js"
  have c: "consistent w"
    unfolding w by (intro consistent_run consistent_newWorld)
  have s: "stopping p (stop w)" and e: "emitted (stop w) = emitted w @ [End]"
    using stopping_stop[OF c p] by simp_all
  from stopping_run[OF s js, of d]
  obtain evs where r: "stopping p (run d js (stop w))"
    and ev: "emitted (run d js (stop w)) = emitted (stop w) @ evs"
      "list_all (\<lambda>e. \<not> is_error_event e) evs"
    by blast
  have "emitted (run d js (stop w)) = emitted w @ (End # evs)"
    using ev(1) e by simp
  then have t: "take (length (emitted w)) (emitted (run d js (stop w))) = emitted w"
    and dr: "drop (length (emitted w)) (emitted (run d js (stop w))) = End # evs"
    by simp_all
  have n: "list_all (\<lambda>e. \<not> is_error_event e)
        (drop (length (emitted w)) (emitted (run d js (stop w))))"
    unfolding dr using ev(2) by simp
  have two: "stopped (advance d 0 x2 (advance d 0 x1 (stop w)))"
    using s by (rule stopping_two_advances)
  have f: "stopped (run d js (stop w)) \<longrightarrow> promises (run d js (stop w)) ! p = Some Fulfilled"
    using stopping_fulfilled[OF r] by simp
  show ?thesis using e t n two f by simp
qed


subsection \<open>The wait between polls\<close>

lemma drift_wait_cases:
  "drift_wait live T t0 t1 =
     (if live \<noteq> Some False \<and> T - (t1 - t0) > 0 then Some (T - (t1 - t0)) else None)"
  by (cases live) (auto simp: drift_wait_def isLive_or_true_def Let_def)

lemma advance_after_fetch:
  assumes "k < length (loops w)" "pc (loops w ! k) = AfterFetch res startMs"
    "continuation res = Some cont" "\<not> is_aborted w (signal (loops w ! k))"
  shows "pc (loops (advance d k x w) ! k) =
           (case drift_wait (isLive (mc w)) (timeoutMs cont) startMs (clock w + int (elapsed x)) of
              None \<Rightarrow> AwaitFetch | Some t \<Rightarrow> AwaitDelay t)"
  using assms
  by (simp add: advance_def delay_rejects_def Let_def set_loop_def split: option.splits)

lemma advance_fetch_ok:
  assumes "k < length (loops w)" "pc (loops w ! k) = AwaitFetch"
    "outcome (fetch d (answers x) (is_aborted w (listenerAbortion (mc w))) (mc w)
        (loop_token (loops w ! k)) None) = Inr res"
  shows "length (loops (advance d k x w)) = length (loops w)"
    "pc (loops (advance d k x w) ! k) = AfterFetch res (clock w + int (elapsed x))"
    "signal (loops (advance d k x w) ! k) = signal (loops w ! k)"
    "signals (advance d k x w) = signals w"
    "clock (advance d k x w) = clock w + int (elapsed x)"
    "mc (advance d k x w) = session (fetch d (answers x) (is_aborted w (listenerAbortion (mc w)))
        (mc w) (loop_token (loops w ! k)) None)"
  using assms
  by (simp_all add: advance_def delay_rejects_def Let_def set_loop_def)

text \<open>
  Claim C4, amended. Let a polling loop await a fetch that takes \<open>elapsed x1\<close>
  milliseconds and returns a response with a continuation, and let \<open>elapsed x2\<close>
  milliseconds pass between the return of the fetch, when \<^verbatim>\<open>startMs\<close> is read, and the
  computation of the wait (the time the consumer keeps the response). Then, unless the
  mode is replay, the loop waits \<^verbatim>\<open>timeoutMs\<close> minus \<open>elapsed x2\<close> when that is positive and
  does not wait otherwise; the duration of the fetch does not enter. In replay mode
  it never waits.
\<close>

theorem wait_after_handling_time:
  "k < length (loops w) \<Longrightarrow> pc (loops w ! k) = AwaitFetch \<Longrightarrow>
   \<not> is_aborted w (signal (loops w ! k)) \<Longrightarrow>
   r = fetch d (answers x1) (is_aborted w (listenerAbortion (mc w))) (mc w)
         (loop_token (loops w ! k)) None \<Longrightarrow>
   outcome r = Inr res \<Longrightarrow> continuation res = Some cont \<Longrightarrow>
   clock (advance d k x1 w) = clock w + int (elapsed x1)
   \<and> pc (loops (advance d k x1 w) ! k) = AfterFetch res (clock w + int (elapsed x1))
   \<and> pc (loops (advance d k x2 (advance d k x1 w)) ! k) =
       (if isLive (session r) \<noteq> Some False \<and> timeoutMs cont - int (elapsed x2) > 0
        then AwaitDelay (timeoutMs cont - int (elapsed x2))
        else AwaitFetch)
   \<and> (isLive (session r) = Some False \<longrightarrow>
        pc (loops (advance d k x2 (advance d k x1 w)) ! k) = AwaitFetch)
   \<and> (timeoutMs cont \<le> int (elapsed x2) \<longrightarrow>
        pc (loops (advance d k x2 (advance d k x1 w)) ! k) = AwaitFetch)"
proof -
  assume k: "k < length (loops w)" and pc: "pc (loops w ! k) = AwaitFetch"
    and na: "\<not> is_aborted w (signal (loops w ! k))"
    and r: "r = fetch d (answers x1) (is_aborted w (listenerAbortion (mc w))) (mc w)
         (loop_token (loops w ! k)) None"
    and ok: "outcome r = Inr res" and cont: "continuation res = Some cont"
  let ?w1 = "advance d k x1 w"
  note f = advance_fetch_ok[OF k pc ok[unfolded r], of ]
  have k1: "k < length (loops ?w1)" using f(1) k by simp
  have na1: "\<not> is_aborted ?w1 (signal (loops ?w1 ! k))"
    using na f(3,4) by (simp add: is_aborted_def)
  have m1: "isLive (mc ?w1) = isLive (session r)" using f(6) r by simp
  have "pc (loops (advance d k x2 ?w1) ! k) =
          (case drift_wait (isLive (mc ?w1)) (timeoutMs cont) (clock w + int (elapsed x1))
                  (clock ?w1 + int (elapsed x2)) of
             None \<Rightarrow> AwaitFetch | Some t \<Rightarrow> AwaitDelay t)"
    using k1 f(2) cont na1 by (rule advance_after_fetch)
  then have two: "pc (loops (advance d k x2 ?w1) ! k) =
       (if isLive (session r) \<noteq> Some False \<and> timeoutMs cont - int (elapsed x2) > 0
        then AwaitDelay (timeoutMs cont - int (elapsed x2))
        else AwaitFetch)"
    by (simp add: drift_wait_cases m1 f(5))
  show ?thesis using f(5) f(2) two by simp
qed

lemmas eval_session =
  listen_def newWorld_def newMasterchat_def Let_def advance_def delay_rejects_def
  fetch_def fetch_loop.simps post_def try_block_def after_try_def
  batch5000_def chat_response_def plain_collab_def tick_def always_def initial_token_def
  applyNewLiveStatus_def isLive_or_true_def is_aborted_def set_loop_def yielded_events_def
  drift_wait_def live_world_def replay_world_def settle_def stop_def
  stopped_def

text \<open>
  With \<^verbatim>\<open>timeoutMs = 5000\<close>, a fetch of 1200 ms and a consumer that takes 300 ms, the wait
  is 4700 ms; with a consumer that takes 5000 ms there is no wait; in replay mode there
  is no wait.
\<close>

theorem wait_after_handling_time_witness:
  "(0 :: nat) < length (loops live_world)
   \<and> pc (loops live_world ! 0) = AwaitFetch
   \<and> \<not> is_aborted live_world (signal (loops live_world ! 0))
   \<and> clock (advance plain_collab 0 (tick (always batch5000) 1200) live_world) = 1200
   \<and> pc (loops (advance plain_collab 0 (tick (always batch5000) 300)
                 (advance plain_collab 0 (tick (always batch5000) 1200) live_world)) ! 0)
       = AwaitDelay 4700
   \<and> pc (loops (advance plain_collab 0 (tick (always batch5000) 5000)
                 (advance plain_collab 0 (tick (always batch5000) 1200) live_world)) ! 0)
       = AwaitFetch
   \<and> pc (loops (advance plain_collab 0 (tick (always batch5000) 300)
                 (advance plain_collab 0 (tick (always batch5000) 1200) replay_world)) ! 0)
       = AwaitFetch"
  using
    wait_after_handling_time[where w = live_world and k = 0 and d = plain_collab
      and ?x1.0 = "tick (always batch5000) 1200" and ?x2.0 = "tick (always batch5000) 300"
      and res = "\<lparr>actions = [7], continuation = Some \<lparr>token = ''t1'', timeoutMs = 5000\<rparr>,
                  error = None\<rparr>"
      and cont = "\<lparr>token = ''t1'', timeoutMs = 5000\<rparr>", OF _ _ _ refl]
    wait_after_handling_time[where w = live_world and k = 0 and d = plain_collab
      and ?x1.0 = "tick (always batch5000) 1200" and ?x2.0 = "tick (always batch5000) 5000"
      and res = "\<lparr>actions = [7], continuation = Some \<lparr>token = ''t1'', timeoutMs = 5000\<rparr>,
                  error = None\<rparr>"
      and cont = "\<lparr>token = ''t1'', timeoutMs = 5000\<rparr>", OF _ _ _ refl]
    wait_after_handling_time[where w = replay_world and k = 0 and d = plain_collab
      and ?x1.0 = "tick (always batch5000) 1200" and ?x2.0 = "tick (always batch5000) 300"
      and res = "\<lparr>actions = [7], continuation = Some \<lparr>token = ''t1'', timeoutMs = 5000\<rparr>,
                  error = None\<rparr>"
      and cont = "\<lparr>token = ''t1'', timeoutMs = 5000\<rparr>", OF _ _ _ refl]
  by (simp add: eval_session)

text \<open>
  Claim C4 as stated fails: with \<^verbatim>\<open>timeoutMs = 5000\<close> and a fetch that took 1200 ms, the
  wait is 5000 ms, not 3800 ms, when the consumer takes no time.
\<close>

theorem wait_not_fetch_time_counterexample:
  "clock (advance plain_collab 0 (tick (always batch5000) 1200) live_world)
     - clock live_world = 1200
   \<and> pc (loops (advance plain_collab 0 (tick (always batch5000) 0)
                 (advance plain_collab 0 (tick (always batch5000) 1200) live_world)) ! 0)
       = AwaitDelay 5000
   \<and> pc (loops (advance plain_collab 0 (tick (always batch5000) 0)
                 (advance plain_collab 0 (tick (always batch5000) 1200) live_world)) ! 0)
       \<noteq> AwaitDelay (5000 - 1200)"
  by (simp add: eval_session)

subsection \<open>Stopping during the wait\<close>

text \<open>
  A session in its wait of 5000 ms is stopped: it has emitted the batch, \<^verbatim>\<open>stop\<close> adds
  \<^verbatim>\<open>end\<close>, the delay is interrupted, the session is stopped and its promise fulfilled.
\<close>

theorem stop_ends_without_error_witness:
  "listener (mc (run plain_collab waiting_inputs (newWorld ''v'' ''c'' (Some Live) True True)))
     = Some 0
   \<and> pc (loops (run plain_collab waiting_inputs
                  (newWorld ''v'' ''c'' (Some Live) True True)) ! 0) = AwaitDelay 5000
   \<and> emitted (run plain_collab [Advance 0 (tick (always batch5000) 0)]
        (stop (run plain_collab waiting_inputs (newWorld ''v'' ''c'' (Some Live) True True))))
     = [Data \<lparr>actions = [7], continuation = Some \<lparr>token = ''t1'', timeoutMs = 5000\<rparr>,
               error = None\<rparr>, Actions [7], Chats [7], End]
   \<and> stopped (run plain_collab [Advance 0 (tick (always batch5000) 0)]
        (stop (run plain_collab waiting_inputs (newWorld ''v'' ''c'' (Some Live) True True))))
   \<and> promises (run plain_collab [Advance 0 (tick (always batch5000) 0)]
        (stop (run plain_collab waiting_inputs (newWorld ''v'' ''c'' (Some Live) True True)))) ! 0
     = Some Fulfilled"
  using stop_ends_without_error
    [where w = "run plain_collab waiting_inputs (newWorld ''v'' ''c'' (Some Live) True True)"
       and d = plain_collab and ins = waiting_inputs and vid = "''v''" and cid = "''c''"
       and mode = "Some Live" and el = True and cl = True and p = 0
       and js = "[Advance 0 (tick (always batch5000) 0)]"
       and ?x1.0 = "tick (always batch5000) 0" and ?x2.0 = "tick (always batch5000) 0",
     OF refl]
  by (simp add: eval_session waiting_inputs_def)

text \<open>
  Claim C9 as stated fails in its last part: after \<^verbatim>\<open>stop\<close> during the wait, the
  \<^verbatim>\<open>ChatListener\<close> promise is fulfilled, not rejected with \<^verbatim>\<open>AbortError\<close>, so awaiting
  the listener does not show the \<^verbatim>\<open>AbortError\<close>.
\<close>

theorem abort_not_observable_counterexample:
  "stopped (run plain_collab (waiting_inputs @ [CallStop, Advance 0 (tick (always batch5000) 0)])
              (newWorld ''v'' ''c'' (Some Live) True True))
   \<and> promises (run plain_collab
                 (waiting_inputs @ [CallStop, Advance 0 (tick (always batch5000) 0)])
                 (newWorld ''v'' ''c'' (Some Live) True True)) = [Some Fulfilled]
   \<and> promises (run plain_collab
                 (waiting_inputs @ [CallStop, Advance 0 (tick (always batch5000) 0)])
                 (newWorld ''v'' ''c'' (Some Live) True True)) ! 0 \<noteq> Some (Rejected AbortError)"
  by (simp add: eval_session waiting_inputs_def)

section \<open>Properties of the pool\<close>

lemmas pool_eval =
  subscribe_def unsubscribe_def act_def handle_event_def newStreamPool_def metadata_def

lemma videoId_settle: "videoId (mc (settle k out w)) = videoId (mc w)"
  by (simp add: settle_def)

lemma videoId_set_loop: "videoId (mc (set_loop k l w)) = videoId (mc w)"
  by (simp add: set_loop_def)

lemma videoId_advance: "videoId (mc (advance d k x w)) = videoId (mc w)"
  by (auto simp: advance_def delay_rejects_def Let_def videoId_settle videoId_set_loop fetch_session_fields
      split: pc.splits sum.splits option.splits)

lemma videoId_stop: "videoId (mc (stop w)) = videoId (mc w)"
  by (simp add: stop_def split: option.splits)

lemma videoId_step: "videoId (mc (step d i w)) = videoId (mc w)"
  by (cases i)
     (auto simp: listen_def stop_def Let_def videoId_advance split: option.splits)

lemma registry_ok_new: "registry_ok (newStreamPool opts el)"
  by (simp add: registry_ok_def newStreamPool_def)

lemma videoId_listen_new:
  "videoId (mc (snd (listen opts (newWorld vid cid mode el cl)))) = vid"
  by (simp add: listen_def newWorld_def newMasterchat_def Let_def)

lemma registry_okD:
  "registry_ok st \<Longrightarrow> pool st vid = Some h \<Longrightarrow>
   h < length (sessions st) \<and> videoId (mc (sessions st ! h)) = vid"
  by (simp add: registry_ok_def)

lemma registry_ok_subscribe:
  assumes "registry_ok st"
  shows "registry_ok (snd (subscribe vid cid opts st))"
proof (cases "pool st vid")
  case (Some h)
  then show ?thesis using assms by (simp add: subscribe_def)
next
  case None
  let ?w = "snd (listen opts (newWorld vid cid (options st) (errorListening st) True))"
  let ?st = "st\<lparr>sessions := sessions st @ [?w], started := True,
                 pool := (pool st)(vid \<mapsto> length (sessions st))\<rparr>"
  have e: "snd (subscribe vid cid opts st) = ?st"
    using None by (simp add: subscribe_def Let_def)
  have "registry_ok ?st"
    unfolding registry_ok_def
  proof (intro allI impI)
    fix v h
    assume p: "pool ?st v = Some h"
    show "h < length (sessions ?st) \<and> videoId (mc (sessions ?st ! h)) = v"
    proof (cases "v = vid")
      case True
      then have "h = length (sessions st)" using p by simp
      then show ?thesis using True by (simp add: videoId_listen_new)
    next
      case False
      then have "pool st v = Some h" using p by simp
      then have "h < length (sessions st) \<and> videoId (mc (sessions st ! h)) = v"
        using assms by (rule registry_okD[rotated])
      then show ?thesis by (simp add: nth_append)
    qed
  qed
  then show ?thesis by (simp only: e)
qed

lemma registry_ok_handle_event:
  assumes "registry_ok st"
  shows "registry_ok (handle_event h st e)" "sessions (handle_event h st e) = sessions st"
  using assms
  by (auto simp: registry_ok_def handle_event_def Let_def split: event.splits)

lemma registry_ok_foldl:
  "registry_ok st \<Longrightarrow> registry_ok (foldl (handle_event h) st es)"
  by (induction es arbitrary: st) (simp_all add: registry_ok_handle_event)

lemma registry_ok_act:
  assumes "registry_ok st" "\<And>w. videoId (mc (f w)) = videoId (mc w)"
  shows "registry_ok (act h f st)"
proof (cases "h < length (sessions st)")
  case False
  then show ?thesis using assms(1) by (simp add: act_def)
next
  case True
  let ?st = "st\<lparr>sessions := (sessions st)[h := f (sessions st ! h)]\<rparr>"
  have "registry_ok ?st"
    unfolding registry_ok_def
  proof (intro allI impI)
    fix v g
    assume "pool ?st v = Some g"
    then have "pool st v = Some g" by simp
    then have g: "g < length (sessions st) \<and> videoId (mc (sessions st ! g)) = v"
      using assms(1) by (rule registry_okD[rotated])
    then show "g < length (sessions ?st) \<and> videoId (mc (sessions ?st ! g)) = v"
      using assms(2) by (cases "g = h") simp_all
  qed
  then show ?thesis using True
    by (simp add: act_def Let_def registry_ok_foldl)
qed

lemma registry_ok_step: "registry_ok st \<Longrightarrow> registry_ok (pool_step d i st)"
proof (cases i)
  case (Subscribe vid cid opts)
  assume "registry_ok st"
  then show ?thesis using Subscribe by (simp add: registry_ok_subscribe)
next
  case (Unsubscribe vid)
  assume r: "registry_ok st"
  have "registry_ok (act g stop st)" for g
    using r by (intro registry_ok_act) (simp_all add: videoId_stop)
  then show ?thesis using Unsubscribe r
    by (simp add: unsubscribe_def split: option.splits)
next
  case (OnSession h j)
  assume "registry_ok st"
  then show ?thesis using OnSession by (simp add: registry_ok_act videoId_step)
qed

lemma registry_ok_run: "registry_ok st \<Longrightarrow> registry_ok (pool_run d ins st)"
  by (induction ins arbitrary: st) (simp_all add: registry_ok_step)

text \<open>
  The \<^verbatim>\<open>Map\<close> of a pool is consistent in every state the pool can reach: an entry is a
  session that the pool constructed for its key. A registered stream is returned by
  \<^verbatim>\<open>subscribe\<close> as it is, and \<^verbatim>\<open>subscribe\<close> leaves its stream registered. None of this
  speaks of the sessions that are running without an entry in the \<^verbatim>\<open>Map\<close>.
\<close>

lemma registry_ok_reachable: "registry_ok (pool_run d ins (newStreamPool mode el))"
  by (intro registry_ok_run registry_ok_new)

lemma subscribe_present: "pool st vid = Some h \<Longrightarrow> subscribe vid cid opts st = (h, st)"
  by (simp add: subscribe_def)

lemma subscribe_registers:
  "pool (snd (subscribe vid cid opts st)) vid = Some (fst (subscribe vid cid opts st))"
  by (cases "pool st vid") (simp_all add: subscribe_def Let_def)

text \<open>
  A session of a pool that fails. With a listener for \<^verbatim>\<open>error\<close> on the pool the error is
  relayed and the promise of \<^verbatim>\<open>listen\<close> is fulfilled; without one the pool's \<^verbatim>\<open>emit\<close> throws
  the error: nothing is relayed, and the promise is rejected. The entry is removed either
  way.
\<close>

lemma error_with_pool_listener:
  "promises (sessions (pool_run plain_collab failing_inputs (newStreamPool None True)) ! 0)
     = [Some Fulfilled]
   \<and> map fst (relayed (pool_run plain_collab failing_inputs (newStreamPool None True)))
       = [ErrorEvent (NoPermissionError ''private'')]
   \<and> pool (pool_run plain_collab failing_inputs (newStreamPool None True)) ''v'' = None"
  by (simp add: failing_inputs_def pool_eval eval_session error_response_def)

lemma error_without_pool_listener:
  "promises (sessions (pool_run plain_collab failing_inputs (newStreamPool None False)) ! 0)
     = [Some (Rejected (NoPermissionError ''private''))]
   \<and> relayed (pool_run plain_collab failing_inputs (newStreamPool None False)) = []
   \<and> pool (pool_run plain_collab failing_inputs (newStreamPool None False)) ''v'' = None"
  by (simp add: failing_inputs_def pool_eval eval_session error_response_def)

text \<open>
  Claim C1. The pool does not keep to one running session for each stream. A caller
  subscribes to the stream \<open>v\<close>, unsubscribes, subscribes again, calls \<^verbatim>\<open>stop()\<close> on the
  \<^verbatim>\<open>Masterchat\<close> that the first \<^verbatim>\<open>subscribe\<close> returned, and subscribes once more. The promise
  of the first session has not settled, so its second \<^verbatim>\<open>stop()\<close> emits \<^verbatim>\<open>end\<close> again, and
  \<^verbatim>\<open>_handleEnd\<close> deletes the key \<^verbatim>\<open>mc.videoId\<close>, which by then holds the second session.
  Before the last \<^verbatim>\<open>subscribe\<close> the second session is running and the \<^verbatim>\<open>Map\<close> has no entry
  for \<open>v\<close>; the last \<^verbatim>\<open>subscribe\<close> returns a third session. In the end the pool has
  constructed three sessions for \<open>v\<close>, and the second and the third are both running:
  neither is stopped, each has its polling loop suspended in its first fetch, and the
  controller of neither is aborted. Two \<^verbatim>\<open>end\<close> events have gone out, both of the first
  session.
\<close>

theorem resubscribe_two_running_sessions:
  "pool (pool_run plain_collab (take 4 resubscribe_inputs) (newStreamPool None True)) ''v'' = None
   \<and> \<not> stopped (sessions (pool_run plain_collab (take 4 resubscribe_inputs)
                              (newStreamPool None True)) ! 1)
   \<and> fst (subscribe ''v'' ''c'' None
            (pool_run plain_collab (take 4 resubscribe_inputs) (newStreamPool None True))) = 2
   \<and> map (\<lambda>w. videoId (mc w)) (sessions resubscribed) = [''v'', ''v'', ''v'']
   \<and> pool resubscribed ''v'' = Some 2
   \<and> \<not> stopped (sessions resubscribed ! 1)
   \<and> \<not> stopped (sessions resubscribed ! 2)
   \<and> map pc (loops (sessions resubscribed ! 1)) = [AwaitFetch]
   \<and> map pc (loops (sessions resubscribed ! 2)) = [AwaitFetch]
   \<and> \<not> is_aborted (sessions resubscribed ! 1) (listenerAbortion (mc (sessions resubscribed ! 1)))
   \<and> \<not> is_aborted (sessions resubscribed ! 2) (listenerAbortion (mc (sessions resubscribed ! 2)))
   \<and> is_aborted (sessions resubscribed ! 0) (listenerAbortion (mc (sessions resubscribed ! 0)))
   \<and> map fst (relayed resubscribed) = [End, End]
   \<and> map (md_videoId \<circ> snd) (relayed resubscribed) = [''v'', ''v'']"
  by (simp add: resubscribed_def resubscribe_inputs_def pool_eval eval_session)


end
